theory Spec2Isabelle
  imports Main "HOL-Library.Monad_Syntax"
begin

section \<open>Data model (src/models/types.ts)\<close>

text \<open>
  \<open>CellValue\<close> is the string union \<open>'empty' | 'player1' | 'player2'\<close>; the type of
  \<open>currentTurn\<close> and of the bot's piece is the sub-union \<open>'player1' | 'player2'\<close>, here
  \<open>Turn\<close>, with \<open>cellOf\<close> the inclusion of that union into \<open>CellValue\<close>.
\<close>

datatype CellValue = Cell_empty | Cell_player1 | Cell_player2

datatype Turn = Turn_player1 | Turn_player2

datatype GameStatus = waiting | active | completed | forfeited

fun cellOf :: "Turn \<Rightarrow> CellValue" where
  "cellOf Turn_player1 = Cell_player1"
| "cellOf Turn_player2 = Cell_player2"

record Position =
  position_row :: int
  position_col :: int

record Player =
  player_id :: string
  username :: string
  socketId :: string
  isBot :: bool

type_synonym Board = "CellValue list list"

text \<open>
  Dates are milliseconds (\<open>nat\<close>); a timer handle (\<open>NodeJS.Timeout\<close>) is a \<open>nat\<close>;
  \<open>null\<close> is \<open>None\<close>.
\<close>

record GameState =
  game_id :: string
  board :: Board
  player1 :: Player
  player2 :: "Player option"
  currentTurn :: Turn
  status :: GameStatus
  winner :: "string option"
  createdAt :: nat
  lastMoveAt :: nat
  disconnectedPlayer :: "string option"
  disconnectTimeout :: "nat option"

text \<open>The optional fields of \<open>MoveResult\<close> are \<open>None\<close> when the object literal omits them.\<close>

record MoveResult =
  success :: bool
  position :: "Position option"
  result_winner :: "string option"
  isDraw :: "bool option"
  error :: "string option"

section \<open>Configuration\<close>

text \<open>
  The object \<open>config.game\<close> of \<open>config/env.ts\<close>, whose text follows that of
  \<open>src/src/config/kafka.ts\<close> in the same file (lines 62 and 63): \<open>rows: 6, cols: 7\<close>.
\<close>

definition config_game_rows :: int where
  "config_game_rows = 6"

definition config_game_cols :: int where
  "config_game_cols = 7"

section \<open>Grid access\<close>

text \<open>
  \<open>board[r][c]\<close>. \<open>None\<close> is JavaScript's \<open>undefined\<close>, read at an index the array does
  not have. (When the row itself is missing the source throws instead; the grids of this
  development have all their rows, see \<open>wf_board\<close>, and every loop tests the index against
  the configured dimensions before it reads.)
\<close>

definition cellAt :: "Board \<Rightarrow> int \<Rightarrow> int \<Rightarrow> CellValue option" where
  "cellAt b r c =
     (if 0 \<le> r \<and> r < int (length b) then
        (let xs = b ! nat r in
         if 0 \<le> c \<and> c < int (length xs) then Some (xs ! nat c) else None)
      else None)"

text \<open>
  \<open>board[r][c] = v\<close>. Every write of the source goes to a cell found by the lowest-empty-row
  scan, which lies inside the grid; outside it the model leaves the grid as it is.
\<close>

definition setCell :: "Board \<Rightarrow> int \<Rightarrow> int \<Rightarrow> CellValue \<Rightarrow> Board" where
  "setCell b r c v =
     (if 0 \<le> r \<and> r < int (length b) \<and> 0 \<le> c \<and> c < int (length (b ! nat r))
      then b[nat r := (b ! nat r)[nat c := v]]
      else b)"

definition wf_board :: "Board \<Rightarrow> bool" where
  "wf_board b =
     (length b = nat config_game_rows \<and> list_all (\<lambda>xs. length xs = nat config_game_cols) b)"

definition inGrid :: "int \<Rightarrow> int \<Rightarrow> bool" where
  "inGrid r c = (r \<ge> 0 \<and> r < config_game_rows \<and> c \<ge> 0 \<and> c < config_game_cols)"

section \<open>Win detection (src/services/game.service.ts)\<close>

text \<open>
  The \<open>while\<close> loop of \<open>checkDirection\<close> and of the bot's \<open>countInDirection\<close>:
  \<open>while (r >= 0 && r < rows && c >= 0 && c < cols && board[r][c] === piece)
     { count++; r += deltaRow; c += deltaCol; }\<close>.
  With both deltas zero the loop does not end, so the function is partial; \<open>None\<close> is
  "does not return". The piece is a \<open>CellValue option\<close> because \<open>checkWinner\<close> passes
  on whatever it read from the grid.
\<close>

partial_function (option) walk ::
  "Board \<Rightarrow> CellValue option \<Rightarrow> int \<Rightarrow> int \<Rightarrow> int \<Rightarrow> int \<Rightarrow> nat \<Rightarrow> nat option" where
  "walk b piece deltaRow deltaCol r c count =
     (if inGrid r c \<and> cellAt b r c = piece
      then walk b piece deltaRow deltaCol (r + deltaRow) (c + deltaCol) (count + 1)
      else Some count)"

text \<open>
  \<open>checkDirection\<close> of the game service: the loop forwards from the neighbour cell, then
  the loop backwards (the source subtracts the deltas: it walks with the negated deltas),
  then \<open>count >= 4\<close>.
\<close>

definition checkDirection ::
  "Board \<Rightarrow> int \<Rightarrow> int \<Rightarrow> int \<Rightarrow> int \<Rightarrow> CellValue option \<Rightarrow> bool option" where
  "checkDirection b row col deltaRow deltaCol piece =
     do {
       count \<leftarrow> walk b piece deltaRow deltaCol (row + deltaRow) (col + deltaCol) 1;
       count \<leftarrow> walk b piece (- deltaRow) (- deltaCol) (row - deltaRow) (col - deltaCol) count;
       Some (count \<ge> 4)
     }"

definition checkWinner :: "Board \<Rightarrow> int \<Rightarrow> int \<Rightarrow> bool option" where
  "checkWinner b row col =
     (let piece = cellAt b row col in
      if piece = Some Cell_empty then Some False
      else do {
        horizontal \<leftarrow> checkDirection b row col 0 1 piece;
        if horizontal then Some True
        else do {
          vertical \<leftarrow> checkDirection b row col 1 0 piece;
          if vertical then Some True
          else do {
            diagonal \<leftarrow> checkDirection b row col 1 1 piece;
            if diagonal then Some True
            else do {
              antidiagonal \<leftarrow> checkDirection b row col 1 (- 1) piece;
              if antidiagonal then Some True else Some False
            }
          }
        }
      })"

text \<open>\<open>board[0].every(cell => cell !== 'empty')\<close>; the source throws on a grid without rows.\<close>

definition isBoardFull :: "Board \<Rightarrow> bool" where
  "isBoardFull b = (case b of [] \<Rightarrow> False | row0 # _ \<Rightarrow> list_all (\<lambda>cell. cell \<noteq> Cell_empty) row0)"

subsection \<open>The spec's words: a run of four through a cell\<close>

text \<open>
  Following the spec, not the code: the cell at \<open>(row, col)\<close> is the \<open>k\<close>-th cell
  (\<open>k = 0..3\<close>) of four consecutive cells along the axis \<open>(dr, dc)\<close>, all inside the grid and
  all holding \<open>piece\<close>. A cell lies in a contiguous run of four or more equal cells along
  an axis exactly when some such window of four holds.
\<close>

definition axes :: "(int \<times> int) list" where
  "axes = [(0, 1), (1, 0), (1, 1), (1, - 1)]"

definition windowOfFour :: "Board \<Rightarrow> CellValue \<Rightarrow> int \<Rightarrow> int \<Rightarrow> int \<Rightarrow> int \<Rightarrow> int \<Rightarrow> bool" where
  "windowOfFour b piece row col dr dc k =
     list_all (\<lambda>i. inGrid (row + (i - k) * dr) (col + (i - k) * dc) \<and>
                   cellAt b (row + (i - k) * dr) (col + (i - k) * dc) = Some piece)
              [0, 1, 2, 3]"

definition inRunOfFour :: "Board \<Rightarrow> int \<Rightarrow> int \<Rightarrow> bool" where
  "inRunOfFour b row col =
     (case cellAt b row col of
        None \<Rightarrow> False
      | Some piece \<Rightarrow>
          piece \<noteq> Cell_empty \<and>
          list_ex (\<lambda>(dr, dc). list_ex (\<lambda>k. windowOfFour b piece row col dr dc k) [0, 1, 2, 3]) axes)"

section \<open>Session registry (src/services/game.service.ts)\<close>

text \<open>
  \<open>private games: Map<string, GameState>\<close>. A session object is mutated in place by the
  source; the model writes the updated record back under the same key.
\<close>

type_synonym Games = "string \<rightharpoonup> GameState"

definition emptyBoard :: Board where
  "emptyBoard = replicate (nat config_game_rows) (replicate (nat config_game_cols) Cell_empty)"

text \<open>
  \<open>createGame\<close>: \<open>gameId\<close> is the value of \<open>uuidv4()\<close> and \<open>now\<close> that of \<open>new Date()\<close>,
  both supplied by the environment.
\<close>

definition createGame :: "Games \<Rightarrow> string \<Rightarrow> Player \<Rightarrow> nat \<Rightarrow> GameState \<times> Games" where
  "createGame games gameId p1 now =
     (let game = \<lparr> game_id = gameId, board = emptyBoard, player1 = p1, player2 = None,
                    currentTurn = Turn_player1, status = waiting, winner = None,
                    createdAt = now, lastMoveAt = now,
                    disconnectedPlayer = None, disconnectTimeout = None \<rparr>
      in (game, games(gameId \<mapsto> game)))"

definition getGame :: "Games \<Rightarrow> string \<Rightarrow> GameState option" where
  "getGame games gameId = games gameId"

definition joinGame :: "Games \<Rightarrow> string \<Rightarrow> Player \<Rightarrow> GameState option \<times> Games" where
  "joinGame games gameId p2 =
     (case games gameId of
        None \<Rightarrow> (None, games)
      | Some game \<Rightarrow>
          if player2 game \<noteq> None \<or> status game \<noteq> waiting then (None, games)
          else (let game' = game\<lparr> player2 := Some p2, status := active \<rparr>
                in (Some game', games(gameId \<mapsto> game'))))"

text \<open>
  The \<open>for\<close> loop of \<open>makeMove\<close> (and of the bot's \<open>getLowestEmptyRow\<close>): from row \<open>r\<close>
  upwards, the first row whose cell in the column is empty, or \<open>-1\<close>.
\<close>

function scanRows :: "Board \<Rightarrow> int \<Rightarrow> int \<Rightarrow> int" where
  "scanRows b column r =
     (if r \<ge> 0 then (if cellAt b r column = Some Cell_empty then r else scanRows b column (r - 1))
      else - 1)"
  by pat_completeness auto
termination
  by (relation "measure (\<lambda>(b, column, r). nat (r + 1))") auto

declare scanRows.simps [simp del]

definition failure :: "string \<Rightarrow> MoveResult" where
  "failure message =
     \<lparr> success = False, position = None, result_winner = None, isDraw = None,
       error = Some message \<rparr>"

definition otherTurn :: "Turn \<Rightarrow> Turn" where
  "otherTurn t = (if t = Turn_player1 then Turn_player2 else Turn_player1)"

definition currentPlayer :: "GameState \<Rightarrow> Player option" where
  "currentPlayer game =
     (if currentTurn game = Turn_player1 then Some (player1 game) else player2 game)"

definition makeMove ::
  "Games \<Rightarrow> string \<Rightarrow> string \<Rightarrow> int \<Rightarrow> nat \<Rightarrow> (MoveResult \<times> Games) option" where
  "makeMove games gameId playerId column now =
     (case games gameId of
        None \<Rightarrow> Some (failure ''Game not found'', games)
      | Some game \<Rightarrow>
          if status game \<noteq> active then Some (failure ''Game is not active'', games)
          else (case currentPlayer game of
            None \<Rightarrow> Some (failure ''Not your turn'', games)
          | Some cp \<Rightarrow>
              if player_id cp \<noteq> playerId then Some (failure ''Not your turn'', games)
              else if column < 0 \<or> column \<ge> config_game_cols
                then Some (failure ''Invalid column'', games)
              else (let row = scanRows (board game) column (config_game_rows - 1) in
                if row = - 1 then Some (failure ''Column is full'', games)
                else (let game1 = game\<lparr> board := setCell (board game) row column
                                                        (cellOf (currentTurn game)),
                                         lastMoveAt := now \<rparr>;
                          pos = \<lparr> position_row = row, position_col = column \<rparr>
                      in do {
                        won \<leftarrow> checkWinner (board game1) row column;
                        if won then
                          Some (\<lparr> success = True, position = Some pos,
                                  result_winner = Some (player_id cp), isDraw = None,
                                  error = None \<rparr>,
                                games(gameId \<mapsto> game1\<lparr> status := completed,
                                                         winner := Some (player_id cp) \<rparr>))
                        else if isBoardFull (board game1) then
                          Some (\<lparr> success = True, position = Some pos,
                                  result_winner = None, isDraw = Some True, error = None \<rparr>,
                                games(gameId \<mapsto> game1\<lparr> status := completed \<rparr>))
                        else
                          Some (\<lparr> success = True, position = Some pos,
                                  result_winner = None, isDraw = None, error = None \<rparr>,
                                games(gameId \<mapsto>
                                  game1\<lparr> currentTurn := otherTurn (currentTurn game1) \<rparr>))
                      }))))"

definition deleteGame :: "Games \<Rightarrow> string \<Rightarrow> Games" where
  "deleteGame games gameId = games(gameId := None)"

definition setDisconnected :: "Games \<Rightarrow> string \<Rightarrow> string \<Rightarrow> Games" where
  "setDisconnected games gameId playerId =
     (case games gameId of
        None \<Rightarrow> games
      | Some game \<Rightarrow> games(gameId \<mapsto> game\<lparr> disconnectedPlayer := Some playerId \<rparr>))"

text \<open>
  \<open>game.winner = opponent?.id || null\<close>: an absent opponent and an opponent whose id is the
  empty string (falsy) both give \<open>null\<close>.
\<close>

definition forfeitGame :: "Games \<Rightarrow> string \<Rightarrow> string \<Rightarrow> Games" where
  "forfeitGame games gameId playerId =
     (case games gameId of
        None \<Rightarrow> games
      | Some game \<Rightarrow>
          if status game = active then
            (let opponent = (if player_id (player1 game) = playerId then player2 game
                             else Some (player1 game))
             in games(gameId \<mapsto> game\<lparr> status := forfeited,
                  winner := (case opponent of
                               None \<Rightarrow> None
                             | Some p \<Rightarrow> if player_id p = [] then None else Some (player_id p)) \<rparr>))
          else games)"

section \<open>Timers\<close>

text \<open>
  \<open>setTimeout\<close> and \<open>clearTimeout\<close>: the armed timers, each with the closure it will run,
  and the next fresh handle. The only closure the two services arm is
  \<open>() => this.matchWithBot(player)\<close>.
\<close>

datatype Callback = MatchWithBot Player

record Timers =
  armed :: "nat \<rightharpoonup> Callback"
  nextHandle :: nat

definition setTimeout :: "Timers \<Rightarrow> Callback \<Rightarrow> nat \<times> Timers" where
  "setTimeout t cb =
     (nextHandle t, t\<lparr> armed := (armed t)(nextHandle t \<mapsto> cb), nextHandle := Suc (nextHandle t) \<rparr>)"

definition clearTimeout :: "Timers \<Rightarrow> nat \<Rightarrow> Timers" where
  "clearTimeout t h = t\<lparr> armed := (armed t)(h := None) \<rparr>"

definition clearDisconnected :: "Games \<Rightarrow> Timers \<Rightarrow> string \<Rightarrow> Games \<times> Timers" where
  "clearDisconnected games t gameId =
     (case games gameId of
        None \<Rightarrow> (games, t)
      | Some game \<Rightarrow>
          (case disconnectTimeout game of
             None \<Rightarrow> (games(gameId \<mapsto> game\<lparr> disconnectedPlayer := None \<rparr>), t)
           | Some h \<Rightarrow>
               (games(gameId \<mapsto> game\<lparr> disconnectedPlayer := None, disconnectTimeout := None \<rparr>),
                clearTimeout t h)))"

section \<open>Matchmaking queue (src/services/matchmaking.service.ts)\<close>

text \<open>
  \<open>waitingPlayers: Map<string, WaitingPlayer>\<close> keeps insertion order, which
  \<open>Array.from(this.waitingPlayers.values())[0]\<close> observes: an association list, with
  \<open>set\<close> replacing the value of a present key in place and appending a new key.
\<close>

record WaitingPlayer =
  player :: Player
  timeout :: nat

type_synonym Queue = "(string \<times> WaitingPlayer) list"

fun mapSet :: "('k \<times> 'v) list \<Rightarrow> 'k \<Rightarrow> 'v \<Rightarrow> ('k \<times> 'v) list" where
  "mapSet [] k v = [(k, v)]"
| "mapSet ((k', v') # kvs) k v = (if k' = k then (k, v) # kvs else (k', v') # mapSet kvs k v)"

definition mapDelete :: "('k \<times> 'v) list \<Rightarrow> 'k \<Rightarrow> ('k \<times> 'v) list" where
  "mapDelete kvs k = filter (\<lambda>kv. fst kv \<noteq> k) kvs"

definition firstValue :: "('k \<times> 'v) list \<Rightarrow> 'v option" where
  "firstValue kvs = (case kvs of [] \<Rightarrow> None | kv # _ \<Rightarrow> Some (snd kv))"

record System =
  games :: Games
  waitingPlayers :: Queue
  timers :: Timers

definition initialSystem :: System where
  "initialSystem =
     \<lparr> games = Map.empty, waitingPlayers = [],
       timers = \<lparr> armed = Map.empty, nextHandle = 0 \<rparr> \<rparr>"

text \<open>The tail of \<open>addPlayerToQueue\<close>: no match, arm the bot timeout and wait.\<close>

definition enqueueWaiting :: "System \<Rightarrow> Player \<Rightarrow> string option \<times> System" where
  "enqueueWaiting s caller =
     (let (h, timers1) = setTimeout (timers s) (MatchWithBot caller)
      in (None, s\<lparr> waitingPlayers :=
                      mapSet (waitingPlayers s) (socketId caller) \<lparr> player = caller, timeout = h \<rparr>,
                    timers := timers1 \<rparr>))"

definition addPlayerToQueue ::
  "System \<Rightarrow> Player \<Rightarrow> string \<Rightarrow> nat \<Rightarrow> string option \<times> System" where
  "addPlayerToQueue s caller gameId now =
     (case firstValue (waitingPlayers s) of
        None \<Rightarrow> enqueueWaiting s caller
      | Some waitingEntry \<Rightarrow>
          if player_id (player waitingEntry) \<noteq> player_id caller then
            (let timers1 = clearTimeout (timers s) (timeout waitingEntry);
                 queue1 = mapDelete (waitingPlayers s) (socketId (player waitingEntry));
                 (game, games1) = createGame (games s) gameId (player waitingEntry) now;
                 (joined, games2) = joinGame games1 (game_id game) caller
             in (Some (game_id game),
                 s\<lparr> games := games2, waitingPlayers := queue1, timers := timers1 \<rparr>))
          else enqueueWaiting s caller)"

text \<open>\<open>matchWithBot\<close>: \<open>botId\<close> and \<open>gameId\<close> are the two \<open>uuidv4()\<close> values.\<close>

definition matchWithBot :: "System \<Rightarrow> Player \<Rightarrow> string \<Rightarrow> string \<Rightarrow> nat \<Rightarrow> System" where
  "matchWithBot s p botId gameId now =
     (case map_of (waitingPlayers s) (socketId p) of
        None \<Rightarrow> s
      | Some waitingEntry \<Rightarrow>
          (let queue1 = mapDelete (waitingPlayers s) (socketId p);
               bot = \<lparr> player_id = botId, username = ''Bot'', socketId = ''bot'', isBot = True \<rparr>;
               (game, games1) = createGame (games s) gameId p now;
               (joined, games2) = joinGame games1 (game_id game) bot
           in s\<lparr> games := games2, waitingPlayers := queue1 \<rparr>))"

text \<open>An armed timer fires: it is armed no more, and its closure runs.\<close>

definition fireTimer :: "System \<Rightarrow> nat \<Rightarrow> string \<Rightarrow> string \<Rightarrow> nat \<Rightarrow> System" where
  "fireTimer s h botId gameId now =
     (case armed (timers s) h of
        None \<Rightarrow> s
      | Some (MatchWithBot p) \<Rightarrow>
          matchWithBot (s\<lparr> timers := clearTimeout (timers s) h \<rparr>) p botId gameId now)"

definition removePlayerFromQueue :: "System \<Rightarrow> string \<Rightarrow> System" where
  "removePlayerFromQueue s sock =
     (case map_of (waitingPlayers s) sock of
        None \<Rightarrow> s
      | Some waitingEntry \<Rightarrow>
          s\<lparr> timers := clearTimeout (timers s) (timeout waitingEntry),
             waitingPlayers := mapDelete (waitingPlayers s) sock \<rparr>)"

definition isPlayerInQueue :: "System \<Rightarrow> string \<Rightarrow> bool" where
  "isPlayerInQueue s sock = (map_of (waitingPlayers s) sock \<noteq> None)"

section \<open>Decision heuristic (bot service)\<close>

definition canPlacePiece :: "Board \<Rightarrow> int \<Rightarrow> bool" where
  "canPlacePiece b col = (cellAt b 0 col = Some Cell_empty)"

definition getLowestEmptyRow :: "Board \<Rightarrow> int \<Rightarrow> int" where
  "getLowestEmptyRow b col = scanRows b col (config_game_rows - 1)"

definition getValidMoves :: "Board \<Rightarrow> int list" where
  "getValidMoves b = filter (\<lambda>col. canPlacePiece b col) [0..config_game_cols - 1]"

text \<open>The bot's \<open>countInDirection\<close> (the two loops) and its \<open>checkDirection\<close>.\<close>

definition countInDirection ::
  "Board \<Rightarrow> int \<Rightarrow> int \<Rightarrow> int \<Rightarrow> int \<Rightarrow> CellValue \<Rightarrow> nat option" where
  "countInDirection b row col deltaRow deltaCol piece =
     do {
       count \<leftarrow> walk b (Some piece) deltaRow deltaCol (row + deltaRow) (col + deltaCol) 1;
       walk b (Some piece) (- deltaRow) (- deltaCol) (row - deltaRow) (col - deltaCol) count
     }"

definition bot_checkDirection ::
  "Board \<Rightarrow> int \<Rightarrow> int \<Rightarrow> int \<Rightarrow> int \<Rightarrow> CellValue \<Rightarrow> bool option" where
  "bot_checkDirection b row col deltaRow deltaCol piece =
     do {
       count \<leftarrow> countInDirection b row col deltaRow deltaCol piece;
       Some (count \<ge> 4)
     }"

text \<open>JavaScript's \<open>x || y\<close> on calls that may not return: \<open>y\<close> runs only when \<open>x\<close> is false.\<close>

definition orElse :: "bool option \<Rightarrow> bool option \<Rightarrow> bool option" where
  "orElse x y = (case x of None \<Rightarrow> None | Some v \<Rightarrow> if v then Some True else y)"

text \<open>
  \<open>wouldWin\<close> and \<open>createsThreeInRow\<close> write the piece into the grid, evaluate, and write
  the saved value back; they return the answer and the grid they leave behind. Outside the
  grid the source would throw or grow the array, and the model returns nothing.
\<close>

definition wouldWin :: "Board \<Rightarrow> int \<Rightarrow> int \<Rightarrow> CellValue \<Rightarrow> (bool \<times> Board) option" where
  "wouldWin b row col piece =
     (case cellAt b row col of
        None \<Rightarrow> None
      | Some originalValue \<Rightarrow>
          (let b1 = setCell b row col piece in
           do {
             isWin \<leftarrow>
               orElse (bot_checkDirection b1 row col 0 1 piece)
                 (orElse (bot_checkDirection b1 row col 1 0 piece)
                   (orElse (bot_checkDirection b1 row col 1 1 piece)
                           (bot_checkDirection b1 row col 1 (- 1) piece)));
             Some (isWin, setCell b1 row col originalValue)
           }))"

definition atLeastThree :: "nat option \<Rightarrow> bool option" where
  "atLeastThree n = (case n of None \<Rightarrow> None | Some count \<Rightarrow> Some (count \<ge> 3))"

definition createsThreeInRow ::
  "Board \<Rightarrow> int \<Rightarrow> int \<Rightarrow> CellValue \<Rightarrow> (bool \<times> Board) option" where
  "createsThreeInRow b row col piece =
     (case cellAt b row col of
        None \<Rightarrow> None
      | Some originalValue \<Rightarrow>
          (let b1 = setCell b row col piece in
           do {
             hasThree \<leftarrow>
               orElse (atLeastThree (countInDirection b1 row col 0 1 piece))
                 (orElse (atLeastThree (countInDirection b1 row col 1 0 piece))
                   (orElse (atLeastThree (countInDirection b1 row col 1 1 piece))
                           (atLeastThree (countInDirection b1 row col 1 (- 1) piece))));
             Some (hasThree, setCell b1 row col originalValue)
           }))"

text \<open>
  The three \<open>for (let col = 0; col < cols; col++)\<close> loops of \<open>getBestMove\<close> differ only in
  the test they run on a placeable column; \<open>firstColumn\<close> is that loop from \<open>col\<close> on, with
  the test as a parameter. It returns the column of the first hit (the loop's \<open>return col\<close>)
  or \<open>None\<close> when the loop runs out, and the grid as the tests left it.
\<close>

function firstColumn ::
  "(Board \<Rightarrow> int \<Rightarrow> int \<Rightarrow> CellValue \<Rightarrow> (bool \<times> Board) option) \<Rightarrow>
   Board \<Rightarrow> CellValue \<Rightarrow> int \<Rightarrow> (int option \<times> Board) option" where
  "firstColumn test b piece col =
     (if col < config_game_cols then
        (if canPlacePiece b col then
           (case test b (getLowestEmptyRow b col) col piece of
              None \<Rightarrow> None
            | Some (hit, b') \<Rightarrow>
                if hit then Some (Some col, b') else firstColumn test b' piece (col + 1))
         else firstColumn test b piece (col + 1))
      else Some (None, b))"
  by pat_completeness auto
termination
  by (relation "measure (\<lambda>(test, b, piece, col). nat (config_game_cols - col))") auto

declare firstColumn.simps [simp del]

text \<open>
  \<open>getBestMove\<close>. The result is \<open>Some col\<close>, or \<open>None\<close> for JavaScript's \<open>undefined\<close>
  (\<open>sortedMoves[0]\<close> of an empty array). \<open>Array.prototype.sort\<close> is stable (ECMAScript 2019),
  as is \<open>sort_key\<close>.
\<close>

definition getBestMove :: "Board \<Rightarrow> Turn \<Rightarrow> (int option \<times> Board) option" where
  "getBestMove b botPiece =
     (let opponentPiece = (if botPiece = Turn_player1 then Cell_player2 else Cell_player1) in
      case firstColumn wouldWin b (cellOf botPiece) 0 of
        None \<Rightarrow> None
      | Some (Some col, b1) \<Rightarrow> Some (Some col, b1)
      | Some (None, b1) \<Rightarrow>
         (case firstColumn wouldWin b1 opponentPiece 0 of
            None \<Rightarrow> None
          | Some (Some col, b2) \<Rightarrow> Some (Some col, b2)
          | Some (None, b2) \<Rightarrow>
             (case firstColumn createsThreeInRow b2 (cellOf botPiece) 0 of
                None \<Rightarrow> None
              | Some (Some col, b3) \<Rightarrow> Some (Some col, b3)
              | Some (None, b3) \<Rightarrow>
                 (let centerCol = config_game_cols div 2 in
                  if canPlacePiece b3 centerCol then Some (Some centerCol, b3)
                  else (let validMoves = getValidMoves b3;
                            sortedMoves = sort_key (\<lambda>a. \<bar>a - centerCol\<bar>) validMoves
                        in Some (case sortedMoves of [] \<Rightarrow> None | m # _ \<Rightarrow> Some m, b3))))))"

section \<open>The make_move handler (game handler, up to the registry call)\<close>

text \<open>
  \<open>handleMakeMove\<close> as far as the registry is concerned: the lookup of the session, the
  resolution of the caller from the connection handle \<open>socket.id\<close>, the call of
  \<open>makeMove\<close>, and the error notification on failure. What follows a successful move
  (broadcast, analytics, end of game, scheduling the bot) does not touch the session.
\<close>

datatype Reply = Emit_error "string option" | Move_accepted MoveResult

definition resolvePlayer :: "GameState \<Rightarrow> string \<Rightarrow> Player option" where
  "resolvePlayer game socket_id =
     (if socketId (player1 game) = socket_id then Some (player1 game) else player2 game)"

definition handleMakeMove ::
  "Games \<Rightarrow> string \<Rightarrow> string \<Rightarrow> int \<Rightarrow> nat \<Rightarrow> (Reply \<times> Games) option" where
  "handleMakeMove registry socket_id gameId column now =
     (case getGame registry gameId of
        None \<Rightarrow> Some (Emit_error (Some ''Game not found''), registry)
      | Some game \<Rightarrow>
          (case resolvePlayer game socket_id of
             None \<Rightarrow> Some (Emit_error (Some ''Player not found in game''), registry)
           | Some p \<Rightarrow>
               do {
                 (result, registry') \<leftarrow> makeMove registry gameId (player_id p) column now;
                 if \<not> success result then Some (Emit_error (error result), registry')
                 else Some (Move_accepted result, registry')
               }))"

section \<open>Sequences of operations\<close>

text \<open>
  The public operations of the two services, as the events of a run. Every value the
  environment supplies (a uuid, the clock) is an argument of the event.
\<close>

datatype Op =
    CreateGame string Player nat
  | JoinGame string Player
  | MakeMove string string int nat
  | ForfeitGame string string
  | SetDisconnected string string
  | ClearDisconnected string
  | AddPlayerToQueue Player string nat
  | FireTimer nat string string nat
  | RemovePlayerFromQueue string

fun exec :: "System \<Rightarrow> Op \<Rightarrow> System option" where
  "exec s (CreateGame gameId p1 now) = Some (s\<lparr> games := snd (createGame (games s) gameId p1 now) \<rparr>)"
| "exec s (JoinGame gameId p2) = Some (s\<lparr> games := snd (joinGame (games s) gameId p2) \<rparr>)"
| "exec s (MakeMove gameId playerId column now) =
     (case makeMove (games s) gameId playerId column now of
        None \<Rightarrow> None
      | Some (result, games') \<Rightarrow> Some (s\<lparr> games := games' \<rparr>))"
| "exec s (ForfeitGame gameId playerId) = Some (s\<lparr> games := forfeitGame (games s) gameId playerId \<rparr>)"
| "exec s (SetDisconnected gameId playerId) =
     Some (s\<lparr> games := setDisconnected (games s) gameId playerId \<rparr>)"
| "exec s (ClearDisconnected gameId) =
     (let (games', timers') = clearDisconnected (games s) (timers s) gameId
      in Some (s\<lparr> games := games', timers := timers' \<rparr>))"
| "exec s (AddPlayerToQueue caller gameId now) = Some (snd (addPlayerToQueue s caller gameId now))"
| "exec s (FireTimer h botId gameId now) = Some (fireTimer s h botId gameId now)"
| "exec s (RemovePlayerFromQueue sock) = Some (removePlayerFromQueue s sock)"

fun run :: "System \<Rightarrow> Op list \<Rightarrow> System option" where
  "run s [] = Some s"
| "run s (op # ops) = (case exec s op of None \<Rightarrow> None | Some s' \<Rightarrow> run s' ops)"

text \<open>
  \<open>uuidv4()\<close> returns an identifier that no session carries: an event that creates a
  session names an id absent from the registry at that moment.
\<close>

fun freshId :: "System \<Rightarrow> Op \<Rightarrow> bool" where
  "freshId s (CreateGame gameId p1 now) = (games s gameId = None)"
| "freshId s (AddPlayerToQueue caller gameId now) = (games s gameId = None)"
| "freshId s (FireTimer h botId gameId now) = (games s gameId = None)"
| "freshId s other = True"

fun freshIds :: "System \<Rightarrow> Op list \<Rightarrow> bool" where
  "freshIds s [] = True"
| "freshIds s (op # ops) =
     (freshId s op \<and> (case exec s op of None \<Rightarrow> False | Some s' \<Rightarrow> freshIds s' ops))"

section \<open>The spec's words\<close>

text \<open>
  Following the spec, not the code: \<open>statusStep\<close> is one edge, or no move, of
  \<open>waiting \<rightarrow> active \<rightarrow> {completed, forfeited}\<close>; \<open>statusForward\<close> is what any number of such
  steps can do.
\<close>

fun statusStep :: "GameStatus \<Rightarrow> GameStatus \<Rightarrow> bool" where
  "statusStep waiting t = (t = waiting \<or> t = active)"
| "statusStep active t = (t = active \<or> t = completed \<or> t = forfeited)"
| "statusStep completed t = (t = completed)"
| "statusStep forfeited t = (t = forfeited)"

fun statusForward :: "GameStatus \<Rightarrow> GameStatus \<Rightarrow> bool" where
  "statusForward waiting t = True"
| "statusForward active t = (t \<noteq> waiting)"
| "statusForward completed t = (t = completed)"
| "statusForward forfeited t = (t = forfeited)"

text \<open>
  Following the spec, not the code: the error taxonomy of the spec, the spec's name for
  each message \<open>makeMove\<close> returns, and the first reason in the spec's order
  (\<open>NotFound\<close>, \<open>NotActive\<close>, \<open>NotYourTurn\<close>, \<open>InvalidColumn\<close>) for which a move must fail,
  if any.
\<close>

datatype MoveError = NotFound | NotActive | NotYourTurn | InvalidColumn

definition errorKind :: "string \<Rightarrow> MoveError option" where
  "errorKind message =
     (if message = ''Game not found'' then Some NotFound
      else if message = ''Game is not active'' then Some NotActive
      else if message = ''Not your turn'' then Some NotYourTurn
      else if message = ''Invalid column'' \<or> message = ''Column is full'' then Some InvalidColumn
      else None)"

definition columnHasEmptyCell :: "Board \<Rightarrow> int \<Rightarrow> bool" where
  "columnHasEmptyCell b column =
     list_ex (\<lambda>r. cellAt b r column = Some Cell_empty) [0..config_game_rows - 1]"

definition piecesInColumn :: "Board \<Rightarrow> int \<Rightarrow> nat" where
  "piecesInColumn b column =
     length (filter (\<lambda>r. cellAt b r column \<noteq> Some Cell_empty) [0..config_game_rows - 1])"

definition moveError :: "Games \<Rightarrow> string \<Rightarrow> string \<Rightarrow> int \<Rightarrow> MoveError option" where
  "moveError gs gameId playerId column =
     (case gs gameId of
        None \<Rightarrow> Some NotFound
      | Some g \<Rightarrow>
          if status g \<noteq> active then Some NotActive
          else if map_option player_id (currentPlayer g) \<noteq> Some playerId then Some NotYourTurn
          else if column < 0 \<or> column \<ge> config_game_cols \<or> \<not> columnHasEmptyCell (board g) column
            then Some InvalidColumn
          else None)"

text \<open>
  Following the spec, not the code: some waiting entry carries a participant identity
  other than the caller's.
\<close>

definition distinctWaitingEntry :: "Queue \<Rightarrow> Player \<Rightarrow> bool" where
  "distinctWaitingEntry q caller =
     list_ex (\<lambda>kv. player_id (player (snd kv)) \<noteq> player_id caller) q"

text \<open>The session \<open>createGame\<close> and \<open>joinGame\<close> make of two participants.\<close>

definition pairedGame :: "string \<Rightarrow> Player \<Rightarrow> Player \<Rightarrow> nat \<Rightarrow> GameState" where
  "pairedGame gameId p1 p2 now =
     \<lparr> game_id = gameId, board = emptyBoard, player1 = p1, player2 = Some p2,
       currentTurn = Turn_player1, status = active, winner = None,
       createdAt = now, lastMoveAt = now,
       disconnectedPlayer = None, disconnectTimeout = None \<rparr>"

text \<open>
  Following the spec, not the code: the priority cascade of \<open>selectMove\<close>. A column is
  legal when it is in range and its top cell is empty; the placement into a column goes to
  its lowest empty row; a run of three is defined like a run of four. \<open>selectMove\<close> is the
  first column, from column 0, that satisfies the first tier any column satisfies.
\<close>

definition columns :: "int list" where
  "columns = [0..config_game_cols - 1]"

definition middleColumn :: int where
  "middleColumn = config_game_cols div 2"

definition legalColumn :: "Board \<Rightarrow> int \<Rightarrow> bool" where
  "legalColumn b c = (0 \<le> c \<and> c < config_game_cols \<and> cellAt b 0 c = Some Cell_empty)"

definition dropRow :: "Board \<Rightarrow> int \<Rightarrow> int" where
  "dropRow b c =
     (case find (\<lambda>r. cellAt b r c = Some Cell_empty) (rev [0..config_game_rows - 1]) of
        None \<Rightarrow> - 1
      | Some r \<Rightarrow> r)"

definition windowOfThree :: "Board \<Rightarrow> CellValue \<Rightarrow> int \<Rightarrow> int \<Rightarrow> int \<Rightarrow> int \<Rightarrow> int \<Rightarrow> bool" where
  "windowOfThree b piece row col dr dc k =
     list_all (\<lambda>i. inGrid (row + (i - k) * dr) (col + (i - k) * dc) \<and>
                   cellAt b (row + (i - k) * dr) (col + (i - k) * dc) = Some piece)
              [0, 1, 2]"

definition inRunOfThree :: "Board \<Rightarrow> int \<Rightarrow> int \<Rightarrow> bool" where
  "inRunOfThree b row col =
     (case cellAt b row col of
        None \<Rightarrow> False
      | Some piece \<Rightarrow>
          piece \<noteq> Cell_empty \<and>
          list_ex (\<lambda>(dr, dc). list_ex (\<lambda>k. windowOfThree b piece row col dr dc k) [0, 1, 2]) axes)"

definition immediateWin :: "Board \<Rightarrow> CellValue \<Rightarrow> int \<Rightarrow> bool" where
  "immediateWin b piece c =
     (legalColumn b c \<and> inRunOfFour (setCell b (dropRow b c) c piece) (dropRow b c) c)"

definition makesThree :: "Board \<Rightarrow> CellValue \<Rightarrow> int \<Rightarrow> bool" where
  "makesThree b piece c =
     (legalColumn b c \<and> inRunOfThree (setCell b (dropRow b c) c piece) (dropRow b c) c)"

definition nearestToMiddle :: "Board \<Rightarrow> int \<Rightarrow> bool" where
  "nearestToMiddle b c =
     (legalColumn b c \<and>
      list_all (\<lambda>c'. \<not> legalColumn b c' \<or>
                      \<bar>c - middleColumn\<bar> < \<bar>c' - middleColumn\<bar> \<or>
                      (\<bar>c - middleColumn\<bar> = \<bar>c' - middleColumn\<bar> \<and> c \<le> c'))
               columns)"

definition selectMove :: "Board \<Rightarrow> Turn \<Rightarrow> int option" where
  "selectMove b side =
     (case find (immediateWin b (cellOf side)) columns of
        Some c \<Rightarrow> Some c
      | None \<Rightarrow>
         (case find (immediateWin b (cellOf (otherTurn side))) columns of
            Some c \<Rightarrow> Some c
          | None \<Rightarrow>
             (case find (makesThree b (cellOf side)) columns of
                Some c \<Rightarrow> Some c
              | None \<Rightarrow>
                 if legalColumn b middleColumn then Some middleColumn
                 else find (nearestToMiddle b) columns)))"

section \<open>Literal grids\<close>

definition emptyRow :: "CellValue list" where
  "emptyRow = replicate 7 Cell_empty"

text \<open>Side A at (5,0), (5,1), (5,2), and the placement at (5,3).\<close>

definition boardFourInRow :: Board where
  "boardFourInRow =
     [emptyRow, emptyRow, emptyRow, emptyRow, emptyRow,
      [Cell_player1, Cell_player1, Cell_player1, Cell_player1, Cell_empty, Cell_empty, Cell_empty]]"

text \<open>The same with (5,2) empty.\<close>

definition boardGap :: Board where
  "boardGap =
     [emptyRow, emptyRow, emptyRow, emptyRow, emptyRow,
      [Cell_player1, Cell_player1, Cell_empty, Cell_player1, Cell_empty, Cell_empty, Cell_empty]]"

section \<open>Literal participants and sessions\<close>

definition alice :: Player where
  "alice = \<lparr> player_id = ''id-alice'', username = ''alice'', socketId = ''socket-a'', isBot = False \<rparr>"

definition bob :: Player where
  "bob = \<lparr> player_id = ''id-bob'', username = ''bob'', socketId = ''socket-b'', isBot = False \<rparr>"

text \<open>The session \<open>createGame\<close> makes for alice under the id \<open>g1\<close> at time 0.\<close>

definition gameWaiting :: GameState where
  "gameWaiting = fst (createGame Map.empty ''g1'' alice 0)"

definition sysWaiting :: System where
  "sysWaiting = initialSystem\<lparr> games := [''g1'' \<mapsto> gameWaiting] \<rparr>"

text \<open>The same session once bob has joined.\<close>

definition gameActive :: GameState where
  "gameActive = gameWaiting\<lparr> player2 := Some bob, status := active \<rparr>"

definition sysActive :: System where
  "sysActive = initialSystem\<lparr> games := [''g1'' \<mapsto> gameActive] \<rparr>"

text \<open>
  A game that alice wins with four pieces on top of each other in column 0, and a game
  bob leaves by forfeit.
\<close>

definition opsAliceWins :: "Op list" where
  "opsAliceWins =
     [CreateGame ''g1'' alice 0, JoinGame ''g1'' bob,
      MakeMove ''g1'' ''id-alice'' 0 1, MakeMove ''g1'' ''id-bob'' 1 2,
      MakeMove ''g1'' ''id-alice'' 0 3, MakeMove ''g1'' ''id-bob'' 1 4,
      MakeMove ''g1'' ''id-alice'' 0 5, MakeMove ''g1'' ''id-bob'' 1 6,
      MakeMove ''g1'' ''id-alice'' 0 7]"

definition gameAliceWon :: GameState where
  "gameAliceWon =
     gameActive\<lparr> board :=
         [emptyRow, emptyRow,
          [Cell_player1, Cell_empty, Cell_empty, Cell_empty, Cell_empty, Cell_empty, Cell_empty],
          [Cell_player1, Cell_player2, Cell_empty, Cell_empty, Cell_empty, Cell_empty, Cell_empty],
          [Cell_player1, Cell_player2, Cell_empty, Cell_empty, Cell_empty, Cell_empty, Cell_empty],
          [Cell_player1, Cell_player2, Cell_empty, Cell_empty, Cell_empty, Cell_empty, Cell_empty]],
       status := completed, winner := Some ''id-alice'', lastMoveAt := 7 \<rparr>"

definition opsBobForfeits :: "Op list" where
  "opsBobForfeits =
     [CreateGame ''g1'' alice 0, JoinGame ''g1'' bob,
      MakeMove ''g1'' ''id-alice'' 0 1, ForfeitGame ''g1'' ''id-bob'']"

definition gameBobForfeited :: GameState where
  "gameBobForfeited =
     gameActive\<lparr> board :=
         [emptyRow, emptyRow, emptyRow, emptyRow, emptyRow,
          [Cell_player1, Cell_empty, Cell_empty, Cell_empty, Cell_empty, Cell_empty, Cell_empty]],
       currentTurn := Turn_player2, status := forfeited, winner := Some ''id-alice'',
       lastMoveAt := 1 \<rparr>"

definition sysAliceWon :: System where
  "sysAliceWon = initialSystem\<lparr> games := [''g1'' \<mapsto> gameAliceWon] \<rparr>"

definition sysBobForfeited :: System where
  "sysBobForfeited = initialSystem\<lparr> games := [''g1'' \<mapsto> gameBobForfeited] \<rparr>"

text \<open>Six moves into column 0, alice and bob in turn: the column is full, nobody has won.\<close>

definition opsFillColumn :: "Op list" where
  "opsFillColumn =
     [CreateGame ''g1'' alice 0, JoinGame ''g1'' bob,
      MakeMove ''g1'' ''id-alice'' 0 1, MakeMove ''g1'' ''id-bob'' 0 2,
      MakeMove ''g1'' ''id-alice'' 0 3, MakeMove ''g1'' ''id-bob'' 0 4,
      MakeMove ''g1'' ''id-alice'' 0 5, MakeMove ''g1'' ''id-bob'' 0 6]"

definition gameColumnFull :: GameState where
  "gameColumnFull =
     gameActive\<lparr> board :=
         [[Cell_player2, Cell_empty, Cell_empty, Cell_empty, Cell_empty, Cell_empty, Cell_empty],
          [Cell_player1, Cell_empty, Cell_empty, Cell_empty, Cell_empty, Cell_empty, Cell_empty],
          [Cell_player2, Cell_empty, Cell_empty, Cell_empty, Cell_empty, Cell_empty, Cell_empty],
          [Cell_player1, Cell_empty, Cell_empty, Cell_empty, Cell_empty, Cell_empty, Cell_empty],
          [Cell_player2, Cell_empty, Cell_empty, Cell_empty, Cell_empty, Cell_empty, Cell_empty],
          [Cell_player1, Cell_empty, Cell_empty, Cell_empty, Cell_empty, Cell_empty, Cell_empty]],
       lastMoveAt := 6 \<rparr>"

definition sysColumnFull :: System where
  "sysColumnFull = initialSystem\<lparr> games := [''g1'' \<mapsto> gameColumnFull] \<rparr>"

text \<open>After alice's first move into column 0: bob is to move.\<close>

definition gameBobToMove :: GameState where
  "gameBobToMove =
     gameActive\<lparr> board :=
         [emptyRow, emptyRow, emptyRow, emptyRow, emptyRow,
          [Cell_player1, Cell_empty, Cell_empty, Cell_empty, Cell_empty, Cell_empty, Cell_empty]],
       currentTurn := Turn_player2, lastMoveAt := 1 \<rparr>"

definition sysBobToMove :: System where
  "sysBobToMove = initialSystem\<lparr> games := [''g1'' \<mapsto> gameBobToMove] \<rparr>"

definition opsBobToMove :: "Op list" where
  "opsBobToMove =
     [CreateGame ''g1'' alice 0, JoinGame ''g1'' bob, MakeMove ''g1'' ''id-alice'' 0 1]"

text \<open>Alice alone in the waiting set, her bot timer armed.\<close>

definition sysAliceWaiting :: System where
  "sysAliceWaiting =
     \<lparr> games = Map.empty,
       waitingPlayers = [(''socket-a'', \<lparr> player = alice, timeout = 0 \<rparr>)],
       timers = \<lparr> armed = [0 \<mapsto> MatchWithBot alice], nextHandle = Suc 0 \<rparr> \<rparr>"

section \<open>Literal grids for the heuristic\<close>

text \<open>Side A at (5,0), (5,1), (5,2): column 3 completes four in a row.\<close>

definition boardThreeInRow :: Board where
  "boardThreeInRow =
     [emptyRow, emptyRow, emptyRow, emptyRow, emptyRow,
      [Cell_player1, Cell_player1, Cell_player1, Cell_empty, Cell_empty, Cell_empty, Cell_empty]]"

text \<open>Side A with three pieces on top of each other in column 0 and in column 3.\<close>

definition boardTwoThreats :: Board where
  "boardTwoThreats =
     [emptyRow, emptyRow, emptyRow,
      [Cell_player1, Cell_empty, Cell_empty, Cell_player1, Cell_empty, Cell_empty, Cell_empty],
      [Cell_player1, Cell_player2, Cell_empty, Cell_player1, Cell_empty, Cell_player2, Cell_player2],
      [Cell_player1, Cell_player2, Cell_empty, Cell_player1, Cell_empty, Cell_player2, Cell_player2]]"

text \<open>A grid without empty cell.\<close>

definition boardFull :: Board where
  "boardFull =
     [[Cell_player1, Cell_player1, Cell_player2, Cell_player2, Cell_player1, Cell_player1, Cell_player2],
      [Cell_player2, Cell_player2, Cell_player1, Cell_player1, Cell_player2, Cell_player2, Cell_player1],
      [Cell_player1, Cell_player1, Cell_player2, Cell_player2, Cell_player1, Cell_player1, Cell_player2],
      [Cell_player2, Cell_player2, Cell_player1, Cell_player1, Cell_player2, Cell_player2, Cell_player1],
      [Cell_player1, Cell_player1, Cell_player2, Cell_player2, Cell_player1, Cell_player1, Cell_player2],
      [Cell_player2, Cell_player2, Cell_player1, Cell_player1, Cell_player2, Cell_player2, Cell_player1]]"

subsection \<open>The loop returns: its value as a total function\<close>

function runLen :: "Board \<Rightarrow> CellValue option \<Rightarrow> int \<Rightarrow> int \<Rightarrow> int \<Rightarrow> int \<Rightarrow> nat" where
  "runLen b piece dr dc r c =
     (if (dr \<noteq> 0 \<or> dc \<noteq> 0) \<and> inGrid r c \<and> cellAt b r c = piece
      then Suc (runLen b piece dr dc (r + dr) (c + dc))
      else 0)"
  by pat_completeness auto
termination
  by (relation "measure (\<lambda>(b, piece, dr, dc, r, c).
        if dr > 0 then nat (config_game_rows - r)
        else if dr < 0 then nat (r + 1)
        else if dc > 0 then nat (config_game_cols - c)
        else nat (c + 1))")
     (auto simp: inGrid_def)

declare runLen.simps [simp del]

text \<open>The count of \<open>checkDirection\<close> along an axis, and the value of \<open>checkWinner\<close>, as total functions.\<close>

definition axisCount :: "Board \<Rightarrow> int \<Rightarrow> int \<Rightarrow> int \<Rightarrow> int \<Rightarrow> CellValue option \<Rightarrow> nat" where
  "axisCount b row col dr dc p =
     1 + runLen b p dr dc (row + dr) (col + dc) + runLen b p (- dr) (- dc) (row - dr) (col - dc)"

definition winsAt :: "Board \<Rightarrow> int \<Rightarrow> int \<Rightarrow> bool" where
  "winsAt b row col =
     (let piece = cellAt b row col in
      piece \<noteq> Some Cell_empty \<and>
      (4 \<le> axisCount b row col 0 1 piece \<or> 4 \<le> axisCount b row col 1 0 piece \<or>
       4 \<le> axisCount b row col 1 1 piece \<or> 4 \<le> axisCount b row col 1 (- 1) piece))"


section \<open>Invariants of the registry\<close>

text \<open>
  Pieces rest on the bottom or on other pieces: below a piece there is no empty cell.
\<close>

definition gravity :: "Board \<Rightarrow> bool" where
  "gravity b =
     (\<forall>r c r'. inGrid r c \<and> cellAt b r c \<noteq> Some Cell_empty \<and> r < r' \<and> r' < config_game_rows
        \<longrightarrow> cellAt b r' c \<noteq> Some Cell_empty)"

definition noEmptyCell :: "Board \<Rightarrow> bool" where
  "noEmptyCell b = list_all (\<lambda>xs. list_all (\<lambda>cell. cell \<noteq> Cell_empty) xs) b"

text \<open>
  What holds of every session the operations can produce, stored under key \<open>k\<close>: the grid
  is 6x7 with pieces resting on each other; the second participant is absent exactly
  while waiting; there is no winner while waiting or active; a completed session with a
  winner has a run of four of the pieces of the side that moved last, and the winner is
  that side's participant; a completed session without a winner has a full grid; the
  winner of a forfeited session is one of its two participants.
\<close>

definition gameInv :: "string \<Rightarrow> GameState \<Rightarrow> bool" where
  "gameInv k g =
     (game_id g = k \<and> wf_board (board g) \<and> gravity (board g) \<and>
      ((status g = waiting) = (player2 g = None)) \<and>
      (status g = waiting \<longrightarrow> board g = emptyBoard) \<and>
      (status g = waiting \<or> status g = active \<longrightarrow> winner g = None) \<and>
      (status g = completed \<and> winner g = None \<longrightarrow> noEmptyCell (board g)) \<and>
      (\<forall>w. status g = completed \<and> winner g = Some w \<longrightarrow>
           (\<exists>cp. currentPlayer g = Some cp \<and> player_id cp = w) \<and>
           (\<exists>row col. inGrid row col \<and>
              cellAt (board g) row col = Some (cellOf (currentTurn g)) \<and>
              inRunOfFour (board g) row col)) \<and>
      (\<forall>w. status g = forfeited \<and> winner g = Some w \<longrightarrow>
           w = player_id (player1 g) \<or> (\<exists>p2. player2 g = Some p2 \<and> w = player_id p2)))"

definition registryInv :: "Games \<Rightarrow> bool" where
  "registryInv gs = (\<forall>k g. gs k = Some g \<longrightarrow> gameInv k g)"

text \<open>
  The successful branch of \<open>makeMove\<close> with \<open>checkWinner\<close> replaced by its value (lemma
  \<open>makeMove_eq\<close> proves the two equal).
\<close>

definition placed :: "GameState \<Rightarrow> int \<Rightarrow> int \<Rightarrow> nat \<Rightarrow> GameState" where
  "placed g row column now =
     g\<lparr> board := setCell (board g) row column (cellOf (currentTurn g)), lastMoveAt := now \<rparr>"

definition moveOutcome ::
  "Games \<Rightarrow> string \<Rightarrow> GameState \<Rightarrow> string \<Rightarrow> int \<Rightarrow> int \<Rightarrow> nat \<Rightarrow> MoveResult \<times> Games" where
  "moveOutcome gs gid g pid row column now =
     (let g1 = placed g row column now;
          pos = \<lparr> position_row = row, position_col = column \<rparr> in
      if winsAt (board g1) row column then
        (\<lparr> success = True, position = Some pos, result_winner = Some pid, isDraw = None,
           error = None \<rparr>,
         gs(gid \<mapsto> g1\<lparr> status := completed, winner := Some pid \<rparr>))
      else if isBoardFull (board g1) then
        (\<lparr> success = True, position = Some pos, result_winner = None, isDraw = Some True,
           error = None \<rparr>,
         gs(gid \<mapsto> g1\<lparr> status := completed \<rparr>))
      else
        (\<lparr> success = True, position = Some pos, result_winner = None, isDraw = None,
           error = None \<rparr>,
         gs(gid \<mapsto> g1\<lparr> currentTurn := otherTurn (currentTurn g) \<rparr>)))"


section \<open>Invariant of the queue\<close>

text \<open>
  What holds of the waiting set in every state the operations can produce: each entry is
  stored under its participant's connection handle, no handle twice, and all entries
  carry the same participant id (an entry is added only when the first entry, if any, has
  the caller's id).
\<close>

definition queueInv :: "Queue \<Rightarrow> bool" where
  "queueInv q =
     (distinct (map fst q) \<and>
      (\<forall>kv \<in> set q. socketId (player (snd kv)) = fst kv) \<and>
      (\<forall>kv \<in> set q. \<forall>kv' \<in> set q.
          player_id (player (snd kv)) = player_id (player (snd kv'))))"


text \<open>
  The values of the bot's \<open>wouldWin\<close> and \<open>createsThreeInRow\<close> at a cell of the grid, as
  total functions.
\<close>

definition fourWith :: "Board \<Rightarrow> int \<Rightarrow> int \<Rightarrow> CellValue \<Rightarrow> bool" where
  "fourWith b row col piece =
     (let b1 = setCell b row col piece in
      4 \<le> axisCount b1 row col 0 1 (Some piece) \<or> 4 \<le> axisCount b1 row col 1 0 (Some piece) \<or>
      4 \<le> axisCount b1 row col 1 1 (Some piece) \<or> 4 \<le> axisCount b1 row col 1 (- 1) (Some piece))"

definition threeWith :: "Board \<Rightarrow> int \<Rightarrow> int \<Rightarrow> CellValue \<Rightarrow> bool" where
  "threeWith b row col piece =
     (let b1 = setCell b row col piece in
      3 \<le> axisCount b1 row col 0 1 (Some piece) \<or> 3 \<le> axisCount b1 row col 1 0 (Some piece) \<or>
      3 \<le> axisCount b1 row col 1 1 (Some piece) \<or> 3 \<le> axisCount b1 row col 1 (- 1) (Some piece))"

section \<open>Win detection: the loops return, and what they count\<close>

lemma walk_runLen:
  "dr \<noteq> 0 \<or> dc \<noteq> 0 \<Longrightarrow> walk b piece dr dc r c n = Some (n + runLen b piece dr dc r c)"
proof (induction b piece dr dc r c arbitrary: n rule: runLen.induct)
  case (1 b piece dr dc r c)
  show ?case
  proof (cases "inGrid r c \<and> cellAt b r c = piece")
    case True
    have "walk b piece dr dc r c n = walk b piece dr dc (r + dr) (c + dc) (n + 1)"
      using True by (subst walk.simps) simp
    also have "\<dots> = Some (n + 1 + runLen b piece dr dc (r + dr) (c + dc))"
      using "1.IH" "1.prems" True by simp
    also have "\<dots> = Some (n + runLen b piece dr dc r c)"
      using True "1.prems" by (subst (2) runLen.simps) simp
    finally show ?thesis .
  next
    case False
    then show ?thesis
      by (subst walk.simps, subst runLen.simps) auto
  qed
qed

lemma runLen_ge:
  "dr \<noteq> 0 \<or> dc \<noteq> 0 \<Longrightarrow>
   (k \<le> runLen b p dr dc r c) =
   (\<forall>i<k. inGrid (r + int i * dr) (c + int i * dc) \<and>
          cellAt b (r + int i * dr) (c + int i * dc) = p)"
proof (induction k arbitrary: r c)
  case 0
  then show ?case by simp
next
  case (Suc k)
  let ?M = "\<lambda>r c. inGrid r c \<and> cellAt b r c = p"
  have "(Suc k \<le> runLen b p dr dc r c) = (?M r c \<and> k \<le> runLen b p dr dc (r + dr) (c + dc))"
    using Suc.prems by (subst runLen.simps) auto
  also have "\<dots> = (?M r c \<and> (\<forall>i<k. ?M (r + dr + int i * dr) (c + dc + int i * dc)))"
    using Suc.IH [OF Suc.prems] by simp
  also have "\<dots> = (\<forall>i<Suc k. ?M (r + int i * dr) (c + int i * dc))"
  proof -
    have shift: "\<And>i. r + dr + int i * dr = r + int (Suc i) * dr"
      "\<And>i. c + dc + int i * dc = c + int (Suc i) * dc"
      by (simp_all add: algebra_simps)
    show ?thesis
      unfolding shift by (auto simp: less_Suc_eq_0_disj)
  qed
  finally show ?case .
qed

lemma checkDirection_total:
  "dr \<noteq> 0 \<or> dc \<noteq> 0 \<Longrightarrow>
   checkDirection b row col dr dc p = Some (4 \<le> axisCount b row col dr dc p)"
  by (simp add: checkDirection_def walk_runLen axisCount_def)

lemma countInDirection_total:
  "dr \<noteq> 0 \<or> dc \<noteq> 0 \<Longrightarrow>
   countInDirection b row col dr dc p = Some (axisCount b row col dr dc (Some p))"
  by (simp add: countInDirection_def walk_runLen axisCount_def)

lemma three_le_sum:
  "(3 \<le> f + (g::nat)) = (3 \<le> f \<or> (1 \<le> g \<and> 2 \<le> f) \<or> (2 \<le> g \<and> 1 \<le> f) \<or> 3 \<le> g)"
  by arith

lemma all_less_3: "(\<forall>i<3::nat. P i) = (P 0 \<and> P (Suc 0) \<and> P (Suc (Suc 0)))"
  by (auto simp: numeral_3_eq_3 less_Suc_eq)

lemma all_less_2: "(\<forall>i<2::nat. P i) = (P 0 \<and> P (Suc 0))"
  by (auto simp: numeral_2_eq_2 less_Suc_eq)

lemma all_less_1: "(\<forall>i<1::nat. P i) = P 0"
  by auto

lemma run_window:
  assumes d: "dr \<noteq> 0 \<or> dc \<noteq> 0" and g: "inGrid row col" and p: "cellAt b row col = Some v"
  shows "(4 \<le> axisCount b row col dr dc (Some v))
       = list_ex (\<lambda>k. windowOfFour b v row col dr dc k) [0, 1, 2, 3]"
proof -
  have nd: "- dr \<noteq> 0 \<or> - dc \<noteq> 0" using d by simp
  have "(4 \<le> axisCount b row col dr dc (Some v)) =
        (3 \<le> runLen b (Some v) dr dc (row + dr) (col + dc) +
             runLen b (Some v) (- dr) (- dc) (row - dr) (col - dc))"
    by (simp add: axisCount_def)
  also have "\<dots> = list_ex (\<lambda>k. windowOfFour b v row col dr dc k) [0, 1, 2, 3]"
    unfolding three_le_sum runLen_ge [OF d] runLen_ge [OF nd] all_less_3 all_less_2 all_less_1
    using g p by (simp add: windowOfFour_def algebra_simps) blast
  finally show ?thesis .
qed

lemma wf_cellAt:
  "wf_board b \<Longrightarrow> inGrid r c \<Longrightarrow> \<exists>v. cellAt b r c = Some v"
  by (auto simp: wf_board_def inGrid_def cellAt_def list_all_length Let_def)

lemma checkWinner_total: "checkWinner b row col = Some (winsAt b row col)"
  by (auto simp: checkWinner_def winsAt_def checkDirection_total Let_def)

lemma winsAt_inRunOfFour:
  assumes "wf_board b" and "inGrid row col"
  shows "winsAt b row col = inRunOfFour b row col"
proof -
  obtain v where v: "cellAt b row col = Some v"
    using wf_cellAt [OF assms] by blast
  have w: "\<And>dr dc. dr \<noteq> 0 \<or> dc \<noteq> 0 \<Longrightarrow>
      (4 \<le> axisCount b row col dr dc (Some v)) =
        list_ex (\<lambda>k. windowOfFour b v row col dr dc k) [0, 1, 2, 3]"
    using run_window [OF _ assms(2) v] by simp
  show ?thesis
    using v by (auto simp add: winsAt_def inRunOfFour_def axes_def w Let_def)
qed

text \<open>
  C3. On a 6x7 grid, for a cell inside the grid, \<open>checkWinner\<close> returns, and returns true
  exactly when the cell holds a piece and is one of four consecutive cells holding that
  piece along the horizontal, the vertical or one of the two diagonals (for an empty cell
  both sides are false). The witness is the spec's pair of literal grids: side A at (5,0),
  (5,1), (5,2) and the placement at (5,3) is a win; with (5,2) empty it is not.
\<close>

theorem checkWinner_iff_run:
  assumes "wf_board b" and "inGrid row col"
  shows "checkWinner b row col = Some (inRunOfFour b row col)"
  using winsAt_inRunOfFour [OF assms] by (simp add: checkWinner_total)

theorem checkWinner_iff_run_witness:
  "wf_board boardFourInRow \<and> inGrid 5 3 \<and> checkWinner boardFourInRow 5 3 = Some True \<and>
   wf_board boardGap \<and> checkWinner boardGap 5 3 = Some False"
  using checkWinner_iff_run [of boardFourInRow 5 3] checkWinner_iff_run [of boardGap 5 3]
  by (simp add: wf_board_def inGrid_def config_game_rows_def config_game_cols_def
        boardFourInRow_def boardGap_def emptyRow_def inRunOfFour_def axes_def
        windowOfFour_def cellAt_def)

section \<open>The grid: scanning, writing, fullness\<close>

lemma scanRows_cases:
  "(scanRows b c r0 = - 1 \<and> (\<forall>r. 0 \<le> r \<and> r \<le> r0 \<longrightarrow> cellAt b r c \<noteq> Some Cell_empty)) \<or>
   (0 \<le> scanRows b c r0 \<and> scanRows b c r0 \<le> r0 \<and>
    cellAt b (scanRows b c r0) c = Some Cell_empty \<and>
    (\<forall>r. scanRows b c r0 < r \<and> r \<le> r0 \<longrightarrow> cellAt b r c \<noteq> Some Cell_empty))"
proof (induction b c r0 rule: scanRows.induct)
  case (1 b column r)
  show ?case
  proof (cases "r \<ge> 0")
    case False
    then show ?thesis by (auto simp: scanRows.simps [of b column r])
  next
    case True
    note r = True
    show ?thesis
    proof (cases "cellAt b r column = Some Cell_empty")
      case True
      then show ?thesis using r by (auto simp: scanRows.simps [of b column r])
    next
      case False
      have eq: "scanRows b column r = scanRows b column (r - 1)"
        using r False by (simp add: scanRows.simps [of b column r])
      have le: "\<And>x. (x \<le> r) = (x \<le> r - 1 \<or> x = r)" by auto
      from "1.IH" [OF r False] show ?thesis
        unfolding eq using False by (auto simp: le)
    qed
  qed
qed

lemma map_length_setCell: "map length (setCell b r c v) = map length b"
  by (auto simp: setCell_def map_update intro!: list_update_id [where xs = "map length b" and i = "nat r", simplified] nth_equalityI simp: nth_list_update)

lemma wf_board_lengths:
  "wf_board b = (length (map length b) = nat config_game_rows \<and>
                 list_all (\<lambda>n. n = nat config_game_cols) (map length b))"
  by (simp add: wf_board_def list_all_length)

lemma wf_setCell [simp]: "wf_board (setCell b r c v) = wf_board b"
  unfolding wf_board_lengths map_length_setCell ..

lemma cellAt_setCell:
  "cellAt (setCell b r c v) r' c' =
     (if r' = r \<and> c' = c \<and> cellAt b r c \<noteq> None then Some v else cellAt b r' c')"
  by (auto simp: cellAt_def setCell_def Let_def nth_list_update nat_eq_iff split: if_splits)

lemma wf_cellAt_iff: "wf_board b \<Longrightarrow> (cellAt b r c \<noteq> None) = inGrid r c"
  by (auto simp: wf_board_def inGrid_def cellAt_def list_all_length Let_def)

lemma gravity_place:
  assumes wf: "wf_board b" and g: "gravity b"
    and row: "0 \<le> row" "row < config_game_rows" "cellAt b row c = Some Cell_empty"
    and below: "\<forall>r. row < r \<and> r \<le> config_game_rows - 1 \<longrightarrow> cellAt b r c \<noteq> Some Cell_empty"
    and v: "v \<noteq> Cell_empty"
  shows "gravity (setCell b row c v)"
  unfolding gravity_def
proof (intro allI impI)
  fix r c' r'
  assume a: "inGrid r c' \<and> cellAt (setCell b row c v) r c' \<noteq> Some Cell_empty \<and> r < r' \<and> r' < config_game_rows"
  show "cellAt (setCell b row c v) r' c' \<noteq> Some Cell_empty"
  proof (cases "c' = c")
    case False
    then show ?thesis using a g unfolding gravity_def by (auto simp: cellAt_setCell)
  next
    case True
    show ?thesis
    proof (cases "r' = row")
      case True
      then show ?thesis using v \<open>c' = c\<close> row by (simp add: cellAt_setCell)
    next
      case False
      note r'row = False
      show ?thesis
      proof (cases "r = row")
        case True
        then show ?thesis using a below \<open>c' = c\<close> by (auto simp: cellAt_setCell)
      next
        case False
        then have "cellAt b r c \<noteq> Some Cell_empty" using a \<open>c' = c\<close> by (auto simp: cellAt_setCell split: if_splits)
        then have "cellAt b r' c \<noteq> Some Cell_empty" using g a \<open>c' = c\<close> unfolding gravity_def by blast
        then show ?thesis using r'row \<open>c' = c\<close> by (simp add: cellAt_setCell)
      qed
    qed
  qed
qed

lemma wf_emptyBoard: "wf_board emptyBoard"
  by (simp add: wf_board_def emptyBoard_def list_all_length config_game_rows_def config_game_cols_def)

lemma cellAt_emptyBoard: "cellAt emptyBoard r c = (if inGrid r c then Some Cell_empty else None)"
  by (auto simp: cellAt_def emptyBoard_def inGrid_def Let_def config_game_rows_def config_game_cols_def)

lemma gravity_emptyBoard: "gravity emptyBoard"
  by (auto simp: gravity_def cellAt_emptyBoard inGrid_def)

lemma noEmptyCell_iff:
  assumes "wf_board b"
  shows "noEmptyCell b = (\<forall>r c. inGrid r c \<longrightarrow> cellAt b r c \<noteq> Some Cell_empty)"
proof
  assume n: "noEmptyCell b"
  show "\<forall>r c. inGrid r c \<longrightarrow> cellAt b r c \<noteq> Some Cell_empty"
    using n assms
    by (auto simp: noEmptyCell_def list_all_length cellAt_def inGrid_def wf_board_def Let_def)
next
  assume a: "\<forall>r c. inGrid r c \<longrightarrow> cellAt b r c \<noteq> Some Cell_empty"
  show "noEmptyCell b"
    unfolding noEmptyCell_def list_all_length
  proof (intro allI impI)
    fix i j assume i: "i < length b" and j: "j < length (b ! i)"
    have "inGrid (int i) (int j)"
      using assms i j by (auto simp: wf_board_def inGrid_def list_all_length)
    with a have "cellAt b (int i) (int j) \<noteq> Some Cell_empty" by blast
    then show "b ! i ! j \<noteq> Cell_empty"
      using i j by (simp add: cellAt_def Let_def)
  qed
qed

lemma isBoardFull_top:
  assumes "wf_board b"
  shows "isBoardFull b = (\<forall>c. 0 \<le> c \<and> c < config_game_cols \<longrightarrow> cellAt b 0 c \<noteq> Some Cell_empty)"
proof -
  obtain row0 rest where b: "b = row0 # rest"
    using assms by (cases b) (auto simp: wf_board_def config_game_rows_def)
  have len: "length row0 = nat config_game_cols"
    using assms b by (simp add: wf_board_def)
  show ?thesis
  proof
    assume "isBoardFull b"
    then show "\<forall>c. 0 \<le> c \<and> c < config_game_cols \<longrightarrow> cellAt b 0 c \<noteq> Some Cell_empty"
      using len by (auto simp: b isBoardFull_def cellAt_def list_all_length)
  next
    assume a: "\<forall>c. 0 \<le> c \<and> c < config_game_cols \<longrightarrow> cellAt b 0 c \<noteq> Some Cell_empty"
    show "isBoardFull b"
      unfolding b isBoardFull_def list.case list_all_length
    proof (intro allI impI)
      fix j assume j: "j < length row0"
      then have "cellAt b 0 (int j) \<noteq> Some Cell_empty" using a len by auto
      then show "row0 ! j \<noteq> Cell_empty" using j by (simp add: b cellAt_def)
    qed
  qed
qed

lemma isBoardFull_noEmptyCell:
  assumes wf: "wf_board b" and g: "gravity b"
  shows "isBoardFull b = noEmptyCell b"
proof
  assume "noEmptyCell b"
  then show "isBoardFull b"
    unfolding isBoardFull_top [OF wf] noEmptyCell_iff [OF wf]
    by (auto simp: inGrid_def config_game_rows_def)
next
  assume f: "isBoardFull b"
  show "noEmptyCell b"
    unfolding noEmptyCell_iff [OF wf]
  proof (intro allI impI)
    fix r c assume rc: "inGrid r c"
    then have top: "cellAt b 0 c \<noteq> Some Cell_empty" and "inGrid 0 c"
      using f unfolding isBoardFull_top [OF wf] by (auto simp: inGrid_def)
    show "cellAt b r c \<noteq> Some Cell_empty"
    proof (cases "r = 0")
      case True then show ?thesis using top by simp
    next
      case False
      then have "0 < r" "r < config_game_rows" using rc by (auto simp: inGrid_def)
      with g top \<open>inGrid 0 c\<close> show ?thesis unfolding gravity_def by blast
    qed
  qed
qed

lemma makeMove_eq:
  "makeMove gs gid pid column now =
     Some (case gs gid of
        None \<Rightarrow> (failure ''Game not found'', gs)
      | Some g \<Rightarrow>
          if status g \<noteq> active then (failure ''Game is not active'', gs)
          else if map_option player_id (currentPlayer g) \<noteq> Some pid
            then (failure ''Not your turn'', gs)
          else if column < 0 \<or> column \<ge> config_game_cols then (failure ''Invalid column'', gs)
          else if scanRows (board g) column (config_game_rows - 1) = - 1
            then (failure ''Column is full'', gs)
          else moveOutcome gs gid g pid (scanRows (board g) column (config_game_rows - 1)) column now)"
  by (auto simp: makeMove_def checkWinner_total Let_def moveOutcome_def placed_def
      split: option.splits)

section \<open>Status moves forward\<close>

lemma makeMove_total: "\<exists>res gs'. makeMove gs gid pid column now = Some (res, gs')"
  by (auto simp: makeMove_def checkWinner_total Let_def split: option.splits)

lemma statusStep_refl [simp]: "statusStep a a"
  by (cases a) auto

lemma statusForward_step: "statusForward a b \<Longrightarrow> statusStep b c \<Longrightarrow> statusForward a c"
  by (cases a; cases b; cases c) auto

lemma statusStep_forward: "statusStep a b \<Longrightarrow> statusForward b c \<Longrightarrow> statusForward a c"
  by (cases a; cases b; cases c) auto

lemma createGame_other:
  "gs gid = None \<Longrightarrow> gs k = Some g \<Longrightarrow> snd (createGame gs gid p now) k = Some g"
  by (auto simp: createGame_def Let_def)

lemma joinGame_status:
  "gs k = Some g \<Longrightarrow> \<exists>g'. snd (joinGame gs gid p) k = Some g' \<and> statusStep (status g) (status g')"
  by (auto simp: joinGame_def Let_def split: option.splits)

lemma makeMove_status:
  "gs k = Some g \<Longrightarrow> makeMove gs gid pid column now = Some (res, gs') \<Longrightarrow>
   \<exists>g'. gs' k = Some g' \<and> statusStep (status g) (status g')"
  by (auto simp: makeMove_def checkWinner_total Let_def split: option.splits if_splits)

lemma forfeitGame_status:
  "gs k = Some g \<Longrightarrow> \<exists>g'. forfeitGame gs gid pid k = Some g' \<and> statusStep (status g) (status g')"
  by (auto simp: forfeitGame_def Let_def split: option.splits)

lemma setDisconnected_status:
  "gs k = Some g \<Longrightarrow> \<exists>g'. setDisconnected gs gid pid k = Some g' \<and> statusStep (status g) (status g')"
  by (auto simp: setDisconnected_def split: option.splits)

lemma clearDisconnected_status:
  "gs k = Some g \<Longrightarrow> \<exists>g'. fst (clearDisconnected gs t gid) k = Some g' \<and> statusStep (status g) (status g')"
  by (auto simp: clearDisconnected_def split: option.splits)

lemma createJoin_other:
  "gs gid = None \<Longrightarrow> gs k = Some g \<Longrightarrow>
   snd (joinGame (snd (createGame gs gid p now)) (game_id (fst (createGame gs gid p now))) q) k = Some g"
  by (auto simp: createGame_def joinGame_def Let_def)

lemma createGame_fst_id [simp]: "game_id (fst (createGame gs gid p now)) = gid"
  by (simp add: createGame_def Let_def)

lemma addPlayerToQueue_games:
  "games (snd (addPlayerToQueue s caller gid now)) =
     (case firstValue (waitingPlayers s) of
        None \<Rightarrow> games s
      | Some e \<Rightarrow>
          if player_id (player e) \<noteq> player_id caller
          then snd (joinGame (snd (createGame (games s) gid (player e) now)) gid caller)
          else games s)"
  by (auto simp: addPlayerToQueue_def enqueueWaiting_def Let_def setTimeout_def createGame_def
       split: option.splits prod.splits)

lemma matchWithBot_games:
  "games (matchWithBot s p botId gid now) =
     (case map_of (waitingPlayers s) (socketId p) of
        None \<Rightarrow> games s
      | Some e \<Rightarrow>
          snd (joinGame (snd (createGame (games s) gid p now)) gid
                 \<lparr> player_id = botId, username = ''Bot'', socketId = ''bot'', isBot = True \<rparr>))"
  by (auto simp: matchWithBot_def Let_def createGame_def split: option.splits prod.splits)

lemma fireTimer_games:
  "games (fireTimer s h botId gid now) = games s \<or>
   (\<exists>p q. games (fireTimer s h botId gid now) =
      snd (joinGame (snd (createGame (games s) gid p now)) gid q))"
  by (auto simp: fireTimer_def matchWithBot_games split: option.splits Callback.splits)

lemma removePlayerFromQueue_games [simp]: "games (removePlayerFromQueue s sock) = games s"
  by (simp add: removePlayerFromQueue_def split: option.splits)

lemma createJoin_status:
  "gs gid = None \<Longrightarrow> gs k = Some g \<Longrightarrow>
   snd (joinGame (snd (createGame gs gid p now)) gid q) k = Some g"
  by (auto simp: createGame_def joinGame_def Let_def)

lemma exec_status:
  assumes "freshId s op" and "games s k = Some g"
  shows "\<exists>s' g'. exec s op = Some s' \<and> games s' k = Some g' \<and> statusStep (status g) (status g')"
proof (cases op)
  case (CreateGame gid p now)
  then show ?thesis using assms createGame_other [of "games s" gid k g p now] by simp
next
  case (JoinGame gid p)
  then show ?thesis using assms(2) joinGame_status [of "games s" k g gid p] by simp
next
  case (MakeMove gid pid column now)
  obtain res gs' where m: "makeMove (games s) gid pid column now = Some (res, gs')"
    using makeMove_total by blast
  show ?thesis using MakeMove m assms(2) makeMove_status [of "games s" k g gid pid column now res gs'] by simp
next
  case (ForfeitGame gid pid)
  then show ?thesis using assms(2) forfeitGame_status [of "games s" k g gid pid] by simp
next
  case (SetDisconnected gid pid)
  then show ?thesis using assms(2) setDisconnected_status [of "games s" k g gid pid] by simp
next
  case (ClearDisconnected gid)
  then show ?thesis using assms(2) clearDisconnected_status [of "games s" k g "timers s" gid]
    by (auto simp: split_beta)
next
  case (AddPlayerToQueue caller gid now)
  then show ?thesis using assms
    by (auto simp: addPlayerToQueue_games createJoin_status split: option.splits)
next
  case (FireTimer h botId gid now)
  then show ?thesis using assms fireTimer_games [of s h botId gid now]
    by (auto simp: createJoin_status)
next
  case (RemovePlayerFromQueue sock)
  then show ?thesis using assms by simp
qed

lemma run_status:
  "freshIds s ops \<Longrightarrow> games s k = Some g \<Longrightarrow>
   \<exists>s' g'. run s ops = Some s' \<and> games s' k = Some g' \<and> statusForward (status g) (status g')"
proof (induction ops arbitrary: s g)
  case Nil
  then show ?case by (cases "status g") auto
next
  case (Cons op ops)
  from Cons.prems have f: "freshId s op" by simp
  from exec_status [OF f Cons.prems(2)] obtain s1 g1 where
    s1: "exec s op = Some s1" "games s1 k = Some g1" "statusStep (status g) (status g1)"
    by blast
  from Cons.prems s1 have "freshIds s1 ops" by simp
  from Cons.IH [OF this s1(2)] obtain s' g' where
    "run s1 ops = Some s'" "games s' k = Some g'" "statusForward (status g1) (status g')"
    by blast
  then show ?case using s1 statusStep_forward by auto
qed

text \<open>
  C6. In any state the operations can reach, an operation (with a fresh uuid where it
  creates a session) leaves every registered session registered and moves its status by
  at most one edge of \<open>waiting \<rightarrow> active \<rightarrow> {completed, forfeited}\<close>; hence after
  any sequence of operations the status is where it was or further along: never back to
  \<open>waiting\<close>, never from a terminal status to another status.
\<close>

theorem status_only_forward:
  assumes "run initialSystem ops0 = Some s"
    and "games s gameId = Some g" and "freshIds s (op # ops)"
  shows "\<exists>s1 g1 s' g'.
           exec s op = Some s1 \<and> games s1 gameId = Some g1 \<and>
           statusStep (status g) (status g1) \<and>
           run s (op # ops) = Some s' \<and> games s' gameId = Some g' \<and>
           statusForward (status g) (status g')"
proof -
  from assms(3) have f: "freshId s op" by simp
  from exec_status [OF f assms(2)] run_status [OF assms(3) assms(2)]
  show ?thesis by blast
qed

lemma emptyRow_eval:
  "emptyRow = [Cell_empty, Cell_empty, Cell_empty, Cell_empty, Cell_empty, Cell_empty, Cell_empty]"
  by (simp add: emptyRow_def numeral_eq_Suc)

lemma emptyBoard_eval:
  "emptyBoard = [emptyRow, emptyRow, emptyRow, emptyRow, emptyRow, emptyRow]"
  by (simp add: emptyBoard_def emptyRow_def config_game_rows_def config_game_cols_def
        numeral_eq_Suc)

lemmas eval_defs =
  sysWaiting_def gameWaiting_def initialSystem_def alice_def bob_def createGame_def joinGame_def
  forfeitGame_def makeMove_eq moveOutcome_def placed_def emptyBoard_eval emptyRow_eval
  config_game_rows_def config_game_cols_def currentPlayer_def otherTurn_def failure_def
  Let_def scanRows.simps cellAt_def setCell_def winsAt_def axisCount_def runLen.simps inGrid_def
  isBoardFull_def

theorem status_only_forward_witness:
  "run initialSystem [CreateGame ''g1'' alice 0] = Some sysWaiting \<and>
   games sysWaiting ''g1'' = Some gameWaiting \<and>
   freshIds sysWaiting [JoinGame ''g1'' bob, MakeMove ''g1'' ''id-alice'' 3 5, ForfeitGame ''g1'' ''id-bob''] \<and>
   (\<exists>s1 g1 s' g'.
      exec sysWaiting (JoinGame ''g1'' bob) = Some s1 \<and> games s1 ''g1'' = Some g1 \<and>
      statusStep (status gameWaiting) (status g1) \<and>
      run sysWaiting [JoinGame ''g1'' bob, MakeMove ''g1'' ''id-alice'' 3 5, ForfeitGame ''g1'' ''id-bob''] = Some s' \<and>
      games s' ''g1'' = Some g' \<and> statusForward (status gameWaiting) (status g'))"
proof -
  have h0: "run initialSystem [CreateGame ''g1'' alice 0] = Some sysWaiting"
    by (simp add: eval_defs)
  have h1: "games sysWaiting ''g1'' = Some gameWaiting"
    by (simp add: sysWaiting_def)
  have h2: "freshIds sysWaiting [JoinGame ''g1'' bob, MakeMove ''g1'' ''id-alice'' 3 5, ForfeitGame ''g1'' ''id-bob'']"
    by (simp add: eval_defs)
  from status_only_forward [OF h0 h1 h2] h0 h1 h2 show ?thesis by blast
qed

section \<open>The registry invariant holds in every reachable state\<close>

lemma cellOf_not_empty [simp]: "cellOf t \<noteq> Cell_empty"
  by (cases t) auto

lemma scanRows_found:
  assumes "scanRows b column (config_game_rows - 1) = row" and "row \<noteq> - 1"
  shows "0 \<le> row \<and> row < config_game_rows \<and> cellAt b row column = Some Cell_empty \<and>
         (\<forall>r. row < r \<and> r \<le> config_game_rows - 1 \<longrightarrow> cellAt b r column \<noteq> Some Cell_empty)"
  using scanRows_cases [of b column "config_game_rows - 1"] assms by auto

lemma placed_facts:
  assumes inv: "gameInv k g"
    and col: "0 \<le> column" "column < config_game_cols"
    and row: "scanRows (board g) column (config_game_rows - 1) = row" "row \<noteq> - 1"
  shows "wf_board (board (placed g row column now))"
    and "gravity (board (placed g row column now))"
    and "inGrid row column"
    and "cellAt (board (placed g row column now)) row column = Some (cellOf (currentTurn g))"
proof -
  note f = scanRows_found [OF row]
  have wf: "wf_board (board g)" and gr: "gravity (board g)"
    using inv by (simp_all add: gameInv_def)
  show "wf_board (board (placed g row column now))"
    using wf by (simp add: placed_def)
  show "gravity (board (placed g row column now))"
    using gravity_place [where b = "board g" and row = row and c = column and v = "cellOf (currentTurn g)"] wf gr f
    by (simp add: placed_def)
  show "inGrid row column" using f col by (simp add: inGrid_def)
  show "cellAt (board (placed g row column now)) row column = Some (cellOf (currentTurn g))"
    using f by (simp add: placed_def cellAt_setCell)
qed

lemma moveOutcome_inv:
  assumes inv: "gameInv k g" and act: "status g = active"
    and turn: "map_option player_id (currentPlayer g) = Some pid"
    and col: "0 \<le> column" "column < config_game_cols"
    and row: "scanRows (board g) column (config_game_rows - 1) = row" "row \<noteq> - 1"
  shows "\<exists>g'. snd (moveOutcome gs k g pid row column now) = gs(k \<mapsto> g') \<and> gameInv k g'"
proof -
  let ?g1 = "placed g row column now"
  note pf = placed_facts [OF inv col row]
  have base: "game_id ?g1 = k" "player2 ?g1 \<noteq> None" "winner ?g1 = None" "status ?g1 = active"
    "currentTurn ?g1 = currentTurn g" "player1 ?g1 = player1 g" "player2 ?g1 = player2 g"
    using inv act by (auto simp: gameInv_def placed_def)
  show ?thesis
  proof (cases "winsAt (board ?g1) row column")
    case True
    then have run: "inRunOfFour (board ?g1) row column"
      using winsAt_inRunOfFour [OF pf(1) pf(3)] by simp
    have ex: "\<exists>r c. inGrid r c \<and> cellAt (board ?g1) r c = Some (cellOf (currentTurn g)) \<and>
                 inRunOfFour (board ?g1) r c"
      using pf(3,4) run by blast
    have cp: "\<exists>cp. currentPlayer (?g1\<lparr> status := completed, winner := Some pid \<rparr>) = Some cp \<and>
                player_id cp = pid"
      using turn by (auto simp: currentPlayer_def placed_def)
    have "gameInv k (?g1\<lparr> status := completed, winner := Some pid \<rparr>)"
      unfolding gameInv_def using pf(1,2) base ex cp by simp
    then show ?thesis using True by (auto simp: moveOutcome_def Let_def)
  next
    case False
    note nowin = False
    show ?thesis
    proof (cases "isBoardFull (board ?g1)")
      case True
      then have "noEmptyCell (board ?g1)"
        using isBoardFull_noEmptyCell [OF pf(1) pf(2)] by simp
      then have "gameInv k (?g1\<lparr> status := completed \<rparr>)"
        using pf base unfolding gameInv_def by auto
      then show ?thesis using True nowin by (auto simp: moveOutcome_def Let_def)
    next
      case False
      have "gameInv k (?g1\<lparr> currentTurn := otherTurn (currentTurn g) \<rparr>)"
        using pf base unfolding gameInv_def by auto
      then show ?thesis using False nowin by (auto simp: moveOutcome_def Let_def)
    qed
  qed
qed

lemma registryInv_upd: "registryInv gs \<Longrightarrow> gameInv k g \<Longrightarrow> registryInv (gs(k \<mapsto> g))"
  by (auto simp: registryInv_def)

lemma makeMove_inv:
  assumes "registryInv gs" and "makeMove gs gid pid column now = Some (res, gs')"
  shows "registryInv gs'"
proof (cases "gs' = gs")
  case True then show ?thesis using assms by simp
next
  case False
  with assms(2) obtain g where g: "gs gid = Some g" "status g = active"
      "map_option player_id (currentPlayer g) = Some pid" "0 \<le> column" "column < config_game_cols"
      "scanRows (board g) column (config_game_rows - 1) \<noteq> - 1"
      "gs' = snd (moveOutcome gs gid g pid (scanRows (board g) column (config_game_rows - 1)) column now)"
    by (auto simp: makeMove_eq split: option.splits if_splits)
  have "gameInv gid g" using assms(1) g(1) by (auto simp: registryInv_def)
  from moveOutcome_inv [OF this g(2,3,4,5) refl g(6), of gs now]
  show ?thesis using g(7) assms(1) registryInv_upd by auto
qed

lemma registryInv_get: "registryInv gs \<Longrightarrow> gs k = Some g \<Longrightarrow> gameInv k g"
  by (simp add: registryInv_def)

lemma gameInv_create:
  "gameInv gid \<lparr> game_id = gid, board = emptyBoard, player1 = p, player2 = None,
                  currentTurn = Turn_player1, status = waiting, winner = None,
                  createdAt = now, lastMoveAt = now,
                  disconnectedPlayer = None, disconnectTimeout = None \<rparr>"
  by (simp add: gameInv_def wf_emptyBoard gravity_emptyBoard)

lemma createGame_inv: "registryInv gs \<Longrightarrow> registryInv (snd (createGame gs gid p now))"
  by (simp add: createGame_def Let_def registryInv_upd gameInv_create)

lemma gameInv_join:
  "gameInv k g \<Longrightarrow> status g = waiting \<Longrightarrow> gameInv k (g\<lparr> player2 := Some p, status := active \<rparr>)"
  by (auto simp: gameInv_def)

lemma joinGame_inv: "registryInv gs \<Longrightarrow> registryInv (snd (joinGame gs gid p))"
  by (auto simp: joinGame_def Let_def registryInv_upd gameInv_join registryInv_get
      split: option.splits)

lemma gameInv_forfeit:
  "gameInv k g \<Longrightarrow> status g = active \<Longrightarrow>
   w = None \<or> w = Some (player_id (player1 g)) \<or> (\<exists>p2. player2 g = Some p2 \<and> w = Some (player_id p2)) \<Longrightarrow>
   gameInv k (g\<lparr> status := forfeited, winner := w \<rparr>)"
  by (auto simp: gameInv_def)

lemma forfeitGame_inv:
  assumes "registryInv gs"
  shows "registryInv (forfeitGame gs gid pid)"
proof (cases "gs gid")
  case None
  then show ?thesis using assms by (simp add: forfeitGame_def)
next
  case (Some g)
  show ?thesis
  proof (cases "status g = active")
    case False
    then show ?thesis using assms Some by (simp add: forfeitGame_def)
  next
    case True
    have "gameInv gid g" using assms Some by (rule registryInv_get)
    from gameInv_forfeit [OF this True] show ?thesis
      using assms Some True
      by (auto simp: forfeitGame_def Let_def intro!: registryInv_upd split: option.splits)
  qed
qed

lemma gameInv_disconnected:
  "gameInv k g \<Longrightarrow> gameInv k (g\<lparr> disconnectedPlayer := x \<rparr>)"
  "gameInv k g \<Longrightarrow> gameInv k (g\<lparr> disconnectedPlayer := x, disconnectTimeout := y \<rparr>)"
  by (auto simp: gameInv_def currentPlayer_def)

lemma setDisconnected_inv: "registryInv gs \<Longrightarrow> registryInv (setDisconnected gs gid pid)"
  by (auto simp: setDisconnected_def registryInv_upd gameInv_disconnected registryInv_get
      split: option.splits)

lemma clearDisconnected_inv: "registryInv gs \<Longrightarrow> registryInv (fst (clearDisconnected gs t gid))"
  by (auto simp: clearDisconnected_def registryInv_upd gameInv_disconnected registryInv_get
      split: option.splits)

lemma exec_inv:
  assumes "registryInv (games s)" and "exec s op = Some s'"
  shows "registryInv (games s')"
proof (cases op)
  case (CreateGame gid p now)
  then show ?thesis using assms createGame_inv by auto
next
  case (JoinGame gid p)
  then show ?thesis using assms joinGame_inv by auto
next
  case (MakeMove gid pid column now)
  then show ?thesis using assms makeMove_inv [of "games s" gid pid column now]
    by (auto split: option.splits)
next
  case (ForfeitGame gid pid)
  then show ?thesis using assms forfeitGame_inv by auto
next
  case (SetDisconnected gid pid)
  then show ?thesis using assms setDisconnected_inv by auto
next
  case (ClearDisconnected gid)
  then show ?thesis using assms clearDisconnected_inv [of "games s" "timers s" gid]
    by (auto simp: split_beta)
next
  case (AddPlayerToQueue caller gid now)
  then show ?thesis using assms
    by (auto simp: addPlayerToQueue_games createGame_inv joinGame_inv split: option.splits)
next
  case (FireTimer h botId gid now)
  then show ?thesis using assms fireTimer_games [of s h botId gid now]
    by (auto simp: createGame_inv joinGame_inv)
next
  case (RemovePlayerFromQueue sock)
  then show ?thesis using assms by auto
qed

lemma run_inv: "registryInv (games s) \<Longrightarrow> run s ops = Some s' \<Longrightarrow> registryInv (games s')"
proof (induction ops arbitrary: s)
  case Nil then show ?case by simp
next
  case (Cons op ops)
  then show ?case using exec_inv by (auto split: option.splits)
qed

lemma reachable_inv: "run initialSystem ops = Some s \<Longrightarrow> registryInv (games s)"
  using run_inv [of initialSystem ops s] by (simp add: initialSystem_def registryInv_def)

section \<open>Accepted moves\<close>

lemma scanRows_not_full:
  assumes "inGrid r0 column" and "cellAt b r0 column = Some Cell_empty"
  shows "scanRows b column (config_game_rows - 1) \<noteq> - 1"
  using scanRows_cases [of b column "config_game_rows - 1"] assms
  by (auto simp: inGrid_def)

lemma cellAt_placed_other:
  "r \<noteq> row \<or> c \<noteq> column \<Longrightarrow>
   cellAt (board (placed g row column now)) r c = cellAt (board g) r c"
  by (auto simp: placed_def cellAt_setCell)

lemma makeMove_accepted:
  assumes inv: "gameInv gameId g"
    and g: "gs gameId = Some g" and act: "status g = active"
    and cp: "currentPlayer g = Some p" "player_id p = playerId"
    and col: "0 \<le> column" "column < config_game_cols"
    and free: "inGrid r0 column" "cellAt (board g) r0 column = Some Cell_empty"
  shows "\<exists>row res g'.
      makeMove (gs) gameId playerId column now = Some (res, (gs)(gameId \<mapsto> g')) \<and>
      inGrid row column \<and> cellAt (board g) row column = Some Cell_empty \<and>
      (\<forall>r. row < r \<and> r < config_game_rows \<longrightarrow> cellAt (board g) r column \<noteq> Some Cell_empty) \<and>
      board g' = setCell (board g) row column (cellOf (currentTurn g)) \<and>
      cellAt (board g') row column = Some (cellOf (currentTurn g)) \<and>
      (\<forall>r c. r \<noteq> row \<or> c \<noteq> column \<longrightarrow> cellAt (board g') r c = cellAt (board g) r c) \<and>
      lastMoveAt g' = now \<and>
      success res \<and> error res = None \<and>
      position res = Some \<lparr> position_row = row, position_col = column \<rparr> \<and>
      (if inRunOfFour (board g') row column then
         status g' = completed \<and> winner g' = Some playerId \<and>
         result_winner res = Some playerId \<and> isDraw res = None \<and>
         currentTurn g' = currentTurn g
       else if noEmptyCell (board g') then
         status g' = completed \<and> winner g' = None \<and>
         result_winner res = None \<and> isDraw res = Some True \<and>
         currentTurn g' = currentTurn g
       else
         status g' = active \<and> winner g' = None \<and>
         result_winner res = None \<and> isDraw res = None \<and>
         currentTurn g' = otherTurn (currentTurn g) \<and> currentTurn g' \<noteq> currentTurn g) \<and>
      game_id g' = game_id g \<and> player1 g' = player1 g \<and> player2 g' = player2 g \<and>
      createdAt g' = createdAt g"
proof -
  define row where "row = scanRows (board g) column (config_game_rows - 1)"
  let ?g1 = "placed g row column now"
  have nf: "row \<noteq> - 1"
    unfolding row_def using free by (rule scanRows_not_full)
  note f = scanRows_found [OF row_def [symmetric] nf]
  note pf = placed_facts [OF inv col row_def [symmetric] nf]
  have w0: "winner g = None" using inv act by (simp add: gameInv_def)
  have win: "winsAt (board ?g1) row column = inRunOfFour (board ?g1) row column"
    using winsAt_inRunOfFour [OF pf(1) pf(3)] .
  have full: "isBoardFull (board ?g1) = noEmptyCell (board ?g1)"
    using isBoardFull_noEmptyCell [OF pf(1) pf(2)] .
  have mm: "makeMove (gs) gameId playerId column now =
        Some (moveOutcome (gs) gameId g playerId row column now)"
    using g act cp col nf by (simp add: makeMove_eq row_def)
  have low: "\<forall>r. row < r \<and> r < config_game_rows \<longrightarrow> cellAt (board g) r column \<noteq> Some Cell_empty"
    using f by auto
  have oth: "\<forall>r c. r \<noteq> row \<or> c \<noteq> column \<longrightarrow> cellAt (board ?g1) r c = cellAt (board g) r c"
    using cellAt_placed_other by blast
  have ot: "otherTurn (currentTurn g) \<noteq> currentTurn g"
    by (cases "currentTurn g") (auto simp: otherTurn_def)
  show ?thesis
  proof (cases "inRunOfFour (board ?g1) row column")
    case True
    let ?g' = "?g1\<lparr> status := completed, winner := Some playerId \<rparr>"
    let ?res = "\<lparr> success = True, position = Some \<lparr> position_row = row, position_col = column \<rparr>,
                  result_winner = Some playerId, isDraw = None, error = None \<rparr>"
    have "makeMove (gs) gameId playerId column now = Some (?res, (gs)(gameId \<mapsto> ?g'))"
      using True win by (simp add: mm moveOutcome_def Let_def)
    moreover have "board ?g' = board ?g1" by simp
    ultimately show ?thesis
      using True pf(3,4) f low oth
      apply (intro exI [of _ row] exI [of _ ?res] exI [of _ ?g'])
      apply (simp add: placed_def)
      done
  next
    case False
    note nowin = False
    show ?thesis
    proof (cases "noEmptyCell (board ?g1)")
      case True
      let ?g' = "?g1\<lparr> status := completed \<rparr>"
      let ?res = "\<lparr> success = True, position = Some \<lparr> position_row = row, position_col = column \<rparr>,
                    result_winner = None, isDraw = Some True, error = None \<rparr>"
      have "makeMove (gs) gameId playerId column now = Some (?res, (gs)(gameId \<mapsto> ?g'))"
        using True nowin win full by (simp add: mm moveOutcome_def Let_def)
      then show ?thesis
        using True nowin pf(3,4) f low oth w0
        apply (intro exI [of _ row] exI [of _ ?res] exI [of _ ?g'])
        apply (simp add: placed_def)
        done
    next
      case False
      let ?g' = "?g1\<lparr> currentTurn := otherTurn (currentTurn g) \<rparr>"
      let ?res = "\<lparr> success = True, position = Some \<lparr> position_row = row, position_col = column \<rparr>,
                    result_winner = None, isDraw = None, error = None \<rparr>"
      have "makeMove (gs) gameId playerId column now = Some (?res, (gs)(gameId \<mapsto> ?g'))"
        using False nowin win full by (simp add: mm moveOutcome_def Let_def)
      then show ?thesis
        using False nowin pf(3,4) f low oth w0 ot act
        apply (intro exI [of _ row] exI [of _ ?res] exI [of _ ?g'])
        apply (simp add: placed_def)
        done
    qed
  qed
qed


text \<open>
  C1. In a state the operations can reach, for a registered active session, a caller whose
  id is that of the side to move (the id of \<open>player1\<close> when \<open>currentTurn\<close> is player1, the
  id of \<open>player2\<close> when it is player2), and a column in range with an empty cell:
  \<open>makeMove\<close> returns; it writes that side's piece into the lowest empty cell of the column
  (every other cell keeps its value) and stamps \<open>lastMoveAt\<close>; the result is a success
  carrying that position; and exactly one of three things happens. If the placed piece is
  in a run of four, the session is completed with the caller as winner and the result
  names the winner. Otherwise, if no cell is empty, the session is completed without
  winner and the result is a draw. Otherwise the session stays active and the turn passes
  to the other side. Only in the third case does the turn change.
\<close>

theorem makeMove_accepts:
  assumes reach: "run initialSystem ops = Some s"
    and g: "games s gameId = Some g" and act: "status g = active"
    and turn: "(currentTurn g = Turn_player1 \<and> player_id (player1 g) = playerId) \<or>
               (currentTurn g = Turn_player2 \<and>
                (\<exists>p2. player2 g = Some p2 \<and> player_id p2 = playerId))"
    and col: "0 \<le> column" "column < config_game_cols"
    and free: "inGrid r0 column" "cellAt (board g) r0 column = Some Cell_empty"
  shows "\<exists>row res g'.
      makeMove (games s) gameId playerId column now = Some (res, (games s)(gameId \<mapsto> g')) \<and>
      inGrid row column \<and> cellAt (board g) row column = Some Cell_empty \<and>
      (\<forall>r. row < r \<and> r < config_game_rows \<longrightarrow> cellAt (board g) r column \<noteq> Some Cell_empty) \<and>
      board g' = setCell (board g) row column (cellOf (currentTurn g)) \<and>
      cellAt (board g') row column =
        Some (if currentTurn g = Turn_player1 then Cell_player1 else Cell_player2) \<and>
      (\<forall>r c. r \<noteq> row \<or> c \<noteq> column \<longrightarrow> cellAt (board g') r c = cellAt (board g) r c) \<and>
      lastMoveAt g' = now \<and>
      success res \<and> error res = None \<and>
      position res = Some \<lparr> position_row = row, position_col = column \<rparr> \<and>
      (if inRunOfFour (board g') row column then
         status g' = completed \<and> winner g' = Some playerId \<and>
         result_winner res = Some playerId \<and> isDraw res = None \<and>
         currentTurn g' = currentTurn g
       else if noEmptyCell (board g') then
         status g' = completed \<and> winner g' = None \<and>
         result_winner res = None \<and> isDraw res = Some True \<and>
         currentTurn g' = currentTurn g
       else
         status g' = active \<and> winner g' = None \<and>
         result_winner res = None \<and> isDraw res = None \<and>
         currentTurn g' = (if currentTurn g = Turn_player1 then Turn_player2 else Turn_player1) \<and>
         currentTurn g' \<noteq> currentTurn g) \<and>
      game_id g' = game_id g \<and> player1 g' = player1 g \<and> player2 g' = player2 g \<and>
      createdAt g' = createdAt g"
proof -
  have inv: "gameInv gameId g"
    using reachable_inv [OF reach] g by (rule registryInv_get)
  from turn obtain p where cp: "currentPlayer g = Some p" "player_id p = playerId"
    by (auto simp: currentPlayer_def)
  have piece: "cellOf (currentTurn g) =
      (if currentTurn g = Turn_player1 then Cell_player1 else Cell_player2)"
    by (cases "currentTurn g") simp_all
  have flip: "otherTurn (currentTurn g) =
      (if currentTurn g = Turn_player1 then Turn_player2 else Turn_player1)"
    by (simp add: otherTurn_def)
  from makeMove_accepted [where gs = "games s" and now = now, OF inv g act cp col free]
  obtain row res g' where
    mm: "makeMove (games s) gameId playerId column now = Some (res, (games s)(gameId \<mapsto> g'))"
    and low: "inGrid row column" "cellAt (board g) row column = Some Cell_empty"
      "\<forall>r. row < r \<and> r < config_game_rows \<longrightarrow> cellAt (board g) r column \<noteq> Some Cell_empty"
    and brd: "board g' = setCell (board g) row column (cellOf (currentTurn g))"
    and cell: "cellAt (board g') row column = Some (cellOf (currentTurn g))"
    and oth: "\<forall>r c. r \<noteq> row \<or> c \<noteq> column \<longrightarrow> cellAt (board g') r c = cellAt (board g) r c"
    and stamp: "lastMoveAt g' = now"
    and res: "success res" "error res = None"
      "position res = Some \<lparr> position_row = row, position_col = column \<rparr>"
    and out: "if inRunOfFour (board g') row column then
         status g' = completed \<and> winner g' = Some playerId \<and>
         result_winner res = Some playerId \<and> isDraw res = None \<and>
         currentTurn g' = currentTurn g
       else if noEmptyCell (board g') then
         status g' = completed \<and> winner g' = None \<and>
         result_winner res = None \<and> isDraw res = Some True \<and>
         currentTurn g' = currentTurn g
       else
         status g' = active \<and> winner g' = None \<and>
         result_winner res = None \<and> isDraw res = None \<and>
         currentTurn g' = otherTurn (currentTurn g) \<and> currentTurn g' \<noteq> currentTurn g"
    and same: "game_id g' = game_id g" "player1 g' = player1 g" "player2 g' = player2 g"
      "createdAt g' = createdAt g"
    by blast
  have cell': "cellAt (board g') row column =
      Some (if currentTurn g = Turn_player1 then Cell_player1 else Cell_player2)"
    using cell piece by simp
  have out': "if inRunOfFour (board g') row column then
         status g' = completed \<and> winner g' = Some playerId \<and>
         result_winner res = Some playerId \<and> isDraw res = None \<and>
         currentTurn g' = currentTurn g
       else if noEmptyCell (board g') then
         status g' = completed \<and> winner g' = None \<and>
         result_winner res = None \<and> isDraw res = Some True \<and>
         currentTurn g' = currentTurn g
       else
         status g' = active \<and> winner g' = None \<and>
         result_winner res = None \<and> isDraw res = None \<and>
         currentTurn g' = (if currentTurn g = Turn_player1 then Turn_player2 else Turn_player1) \<and>
         currentTurn g' \<noteq> currentTurn g"
    using out flip by (simp split: if_splits)
  show ?thesis
    apply (rule exI [of _ row])
    apply (rule exI [of _ res])
    apply (rule exI [of _ g'])
    apply (intro conjI)
    apply (rule mm low brd cell' oth stamp res out' same)+
    done
qed

theorem makeMove_accepts_witness:
  "run initialSystem [CreateGame ''g1'' alice 0, JoinGame ''g1'' bob] = Some sysActive \<and>
   games sysActive ''g1'' = Some gameActive \<and> status gameActive = active \<and>
   currentTurn gameActive = Turn_player1 \<and> player_id (player1 gameActive) = ''id-alice'' \<and>
   (0::int) \<le> 3 \<and> 3 < config_game_cols \<and> inGrid 5 3 \<and>
   cellAt (board gameActive) 5 3 = Some Cell_empty \<and>
   (\<exists>row res g'. makeMove (games sysActive) ''g1'' ''id-alice'' 3 7 =
                Some (res, (games sysActive)(''g1'' \<mapsto> g')) \<and>
              success res \<and> lastMoveAt g' = 7 \<and>
              cellAt (board g') row 3 = Some Cell_player1) \<and>
   run initialSystem opsBobToMove = Some sysBobToMove \<and>
   games sysBobToMove ''g1'' = Some gameBobToMove \<and> status gameBobToMove = active \<and>
   currentTurn gameBobToMove = Turn_player2 \<and> player2 gameBobToMove = Some bob \<and>
   player_id bob = ''id-bob'' \<and> inGrid 4 0 \<and>
   cellAt (board gameBobToMove) 4 0 = Some Cell_empty \<and>
   (\<exists>row res g'. makeMove (games sysBobToMove) ''g1'' ''id-bob'' 0 8 =
                Some (res, (games sysBobToMove)(''g1'' \<mapsto> g')) \<and>
              success res \<and> lastMoveAt g' = 8 \<and>
              cellAt (board g') row 0 = Some Cell_player2)"
proof -
  have h1: "run initialSystem [CreateGame ''g1'' alice 0, JoinGame ''g1'' bob] = Some sysActive"
    by (simp add: sysActive_def gameActive_def eval_defs)
  have h2: "games sysActive ''g1'' = Some gameActive"
    by (simp add: sysActive_def)
  have h3: "status gameActive = active" "currentTurn gameActive = Turn_player1"
    "player_id (player1 gameActive) = ''id-alice''" "(0::int) \<le> 3" "3 < config_game_cols"
    "inGrid 5 3" "cellAt (board gameActive) 5 3 = Some Cell_empty"
    by (simp_all add: gameActive_def eval_defs)
  have t1: "(currentTurn gameActive = Turn_player1 \<and>
             player_id (player1 gameActive) = ''id-alice'') \<or>
            (currentTurn gameActive = Turn_player2 \<and>
             (\<exists>p2. player2 gameActive = Some p2 \<and> player_id p2 = ''id-alice''))"
    using h3(2,3) by simp
  have k1: "run initialSystem opsBobToMove = Some sysBobToMove"
    by (simp add: opsBobToMove_def sysBobToMove_def gameBobToMove_def gameActive_def eval_defs)
  have k2: "games sysBobToMove ''g1'' = Some gameBobToMove"
    by (simp add: sysBobToMove_def)
  have k3: "status gameBobToMove = active" "currentTurn gameBobToMove = Turn_player2"
    "player2 gameBobToMove = Some bob" "player_id bob = ''id-bob''" "inGrid 4 0"
    "cellAt (board gameBobToMove) 4 0 = Some Cell_empty"
    by (simp_all add: gameBobToMove_def gameActive_def eval_defs)
  have t2: "(currentTurn gameBobToMove = Turn_player1 \<and>
             player_id (player1 gameBobToMove) = ''id-bob'') \<or>
            (currentTurn gameBobToMove = Turn_player2 \<and>
             (\<exists>p2. player2 gameBobToMove = Some p2 \<and> player_id p2 = ''id-bob''))"
    using k3(2,3,4) by simp
  have c0: "(0::int) \<le> 0" "(0::int) < config_game_cols"
    by (simp_all add: config_game_cols_def)
  from makeMove_accepts [OF h1 h2 h3(1) t1 h3(4,5,6,7), of 7]
  obtain row res g' where
    "makeMove (games sysActive) ''g1'' ''id-alice'' 3 7 =
       Some (res, (games sysActive)(''g1'' \<mapsto> g'))"
    "success res" "lastMoveAt g' = 7"
    "cellAt (board g') row 3 =
       Some (if currentTurn gameActive = Turn_player1 then Cell_player1 else Cell_player2)"
    by blast
  with h3(2)
  have a: "\<exists>row res g'. makeMove (games sysActive) ''g1'' ''id-alice'' 3 7 =
                Some (res, (games sysActive)(''g1'' \<mapsto> g')) \<and>
              success res \<and> lastMoveAt g' = 7 \<and>
              cellAt (board g') row 3 = Some Cell_player1"
    by auto
  from makeMove_accepts [OF k1 k2 k3(1) t2 c0 k3(5,6), of 8]
  obtain row res g' where
    "makeMove (games sysBobToMove) ''g1'' ''id-bob'' 0 8 =
       Some (res, (games sysBobToMove)(''g1'' \<mapsto> g'))"
    "success res" "lastMoveAt g' = 8"
    "cellAt (board g') row 0 =
       Some (if currentTurn gameBobToMove = Turn_player1 then Cell_player1 else Cell_player2)"
    by blast
  with k3(2)
  have b: "\<exists>row res g'. makeMove (games sysBobToMove) ''g1'' ''id-bob'' 0 8 =
                Some (res, (games sysBobToMove)(''g1'' \<mapsto> g')) \<and>
              success res \<and> lastMoveAt g' = 8 \<and>
              cellAt (board g') row 0 = Some Cell_player2"
    by auto
  from h1 h2 h3 a k1 k2 k3 b show ?thesis by blast
qed
section \<open>Who wins\<close>

lemma makeMove_success_cases:
  assumes "makeMove gs gid pid column now = Some (res, gs')" and "success res"
  shows "\<exists>g p r0. gs gid = Some g \<and> status g = active \<and> currentPlayer g = Some p \<and>
           player_id p = pid \<and> 0 \<le> column \<and> column < config_game_cols \<and>
           inGrid r0 column \<and> cellAt (board g) r0 column = Some Cell_empty"
proof -
  from assms obtain g where g: "gs gid = Some g" "status g = active"
      "map_option player_id (currentPlayer g) = Some pid" "0 \<le> column" "column < config_game_cols"
      "scanRows (board g) column (config_game_rows - 1) \<noteq> - 1"
    by (auto simp: makeMove_eq failure_def split: option.splits if_splits)
  from scanRows_found [OF refl g(6)] g(4,5)
  have "inGrid (scanRows (board g) column (config_game_rows - 1)) column \<and>
        cellAt (board g) (scanRows (board g) column (config_game_rows - 1)) column = Some Cell_empty"
    by (simp add: inGrid_def)
  with g show ?thesis by auto
qed

lemma makeMove_decides:
  assumes inv: "registryInv gs"
    and mm: "makeMove gs gid pid column now = Some (res, gs')" and ok: "success res"
  shows "\<exists>g' pos. gs' gid = Some g' \<and> position res = Some pos \<and>
     (case result_winner res of
        Some w \<Rightarrow> w = pid \<and> status g' = completed \<and> winner g' = Some pid \<and>
                 inRunOfFour (board g') (position_row pos) (position_col pos) \<and>
                 cellAt (board g') (position_row pos) (position_col pos) = Some (cellOf (currentTurn g'))
      | None \<Rightarrow>
         (if isDraw res = Some True
          then status g' = completed \<and> winner g' = None \<and> noEmptyCell (board g') \<and>
               \<not> inRunOfFour (board g') (position_row pos) (position_col pos)
          else status g' = active \<and> winner g' = None))"
proof -
  from makeMove_success_cases [OF mm ok] obtain g p r0 where
    g: "gs gid = Some g" "status g = active" "currentPlayer g = Some p" "player_id p = pid"
       "0 \<le> column" "column < config_game_cols" "inGrid r0 column"
       "cellAt (board g) r0 column = Some Cell_empty"
    by blast
  have gi: "gameInv gid g" using inv g(1) by (rule registryInv_get)
  from makeMove_accepted [where gs = gs and now = now, OF gi g] obtain row res0 g' where
    a: "makeMove gs gid pid column now = Some (res0, gs(gid \<mapsto> g'))"
       "position res0 = Some \<lparr> position_row = row, position_col = column \<rparr>"
       "cellAt (board g') row column = Some (cellOf (currentTurn g))"
       "if inRunOfFour (board g') row column then
         status g' = completed \<and> winner g' = Some pid \<and>
         result_winner res0 = Some pid \<and> isDraw res0 = None \<and>
         currentTurn g' = currentTurn g
       else if noEmptyCell (board g') then
         status g' = completed \<and> winner g' = None \<and>
         result_winner res0 = None \<and> isDraw res0 = Some True \<and>
         currentTurn g' = currentTurn g
       else
         status g' = active \<and> winner g' = None \<and>
         result_winner res0 = None \<and> isDraw res0 = None \<and>
         currentTurn g' = otherTurn (currentTurn g) \<and> currentTurn g' \<noteq> currentTurn g"
    by blast
  from a(1) mm have eq: "res = res0" "gs' = gs(gid \<mapsto> g')" by simp_all
  show ?thesis
    apply (intro exI [of _ g'] exI [of _ "\<lparr> position_row = row, position_col = column \<rparr>"])
    using a(2,3,4) unfolding eq
    by (auto split: if_splits)
qed

lemma forfeitGame_winner:
  assumes "gs gid = Some g" and "status g = active"
  shows "\<exists>g'. forfeitGame gs gid pid = gs(gid \<mapsto> g') \<and> status g' = forfeited \<and>
           board g' = board g \<and> player1 g' = player1 g \<and> player2 g' = player2 g \<and>
           currentTurn g' = currentTurn g \<and>
           winner g' =
             (if player_id (player1 g) = pid
              then (case player2 g of None \<Rightarrow> None
                    | Some p2 \<Rightarrow> if player_id p2 = [] then None else Some (player_id p2))
              else if player_id (player1 g) = [] then None else Some (player_id (player1 g)))"
  using assms by (auto simp: forfeitGame_def Let_def split: option.splits)


text \<open>
  C7. In a state the operations can reach, for every registered session: while waiting or
  active it has no winner; a winner is there only in a completed session, where the grid
  holds a run of four of the pieces of the side that moved last and the winner is that
  side's participant, or in a forfeited session, where the winner is one of the two
  participants; a completed session without winner has a grid without empty cell. The
  winner is set by an accepted move whose result names a winner (the caller, whose
  placement is in a run of four), never by a move whose result is a draw (the grid is then
  full and the placement in no run of four), and by a forfeit of an active session: to
  the second participant when the first forfeits, to the first when the second does
  (ids non-empty).
\<close>

theorem winner_only_when_decided:
  assumes reach: "run initialSystem ops = Some s" and g: "games s gameId = Some g"
  shows
    "(status g = waiting \<or> status g = active \<longrightarrow> winner g = None) \<and>
     (\<forall>w. winner g = Some w \<longrightarrow>
        (status g = completed \<and>
         (\<exists>cp. currentPlayer g = Some cp \<and> player_id cp = w) \<and>
         (\<exists>row col. inGrid row col \<and>
            cellAt (board g) row col = Some (cellOf (currentTurn g)) \<and>
            inRunOfFour (board g) row col)) \<or>
        (status g = forfeited \<and>
         (w = player_id (player1 g) \<or> (\<exists>p2. player2 g = Some p2 \<and> w = player_id p2)))) \<and>
     (status g = completed \<and> winner g = None \<longrightarrow> noEmptyCell (board g)) \<and>
     (\<forall>playerId column now res gs'.
        makeMove (games s) gameId playerId column now = Some (res, gs') \<and> success res \<longrightarrow>
        (\<exists>g' pos. gs' gameId = Some g' \<and> position res = Some pos \<and>
           (case result_winner res of
              Some w \<Rightarrow>
                w = playerId \<and> status g' = completed \<and> winner g' = Some playerId \<and>
                inRunOfFour (board g') (position_row pos) (position_col pos) \<and>
                cellAt (board g') (position_row pos) (position_col pos) =
                  Some (cellOf (currentTurn g'))
            | None \<Rightarrow>
                (if isDraw res = Some True
                 then status g' = completed \<and> winner g' = None \<and> noEmptyCell (board g') \<and>
                      \<not> inRunOfFour (board g') (position_row pos) (position_col pos)
                 else status g' = active \<and> winner g' = None)))) \<and>
     (\<forall>playerId p2. status g = active \<and> player2 g = Some p2 \<longrightarrow>
        (\<exists>g'. forfeitGame (games s) gameId playerId = (games s)(gameId \<mapsto> g') \<and>
              status g' = forfeited \<and>
              (playerId = player_id (player1 g) \<and> player_id p2 \<noteq> [] \<longrightarrow>
                 winner g' = Some (player_id p2)) \<and>
              (playerId = player_id p2 \<and> player_id p2 \<noteq> player_id (player1 g) \<and>
               player_id (player1 g) \<noteq> [] \<longrightarrow>
                 winner g' = Some (player_id (player1 g)))))"
proof -
  have ri: "registryInv (games s)" using reach by (rule reachable_inv)
  then have gi: "gameInv gameId g" using g by (rule registryInv_get)
  have 1: "status g = waiting \<or> status g = active \<longrightarrow> winner g = None"
    using gi by (auto simp: gameInv_def)
  have 2: "\<forall>w. winner g = Some w \<longrightarrow>
        (status g = completed \<and>
         (\<exists>cp. currentPlayer g = Some cp \<and> player_id cp = w) \<and>
         (\<exists>row col. inGrid row col \<and>
            cellAt (board g) row col = Some (cellOf (currentTurn g)) \<and>
            inRunOfFour (board g) row col)) \<or>
        (status g = forfeited \<and>
         (w = player_id (player1 g) \<or> (\<exists>p2. player2 g = Some p2 \<and> w = player_id p2)))"
  proof (intro allI impI)
    fix w assume w: "winner g = Some w"
    show "(status g = completed \<and>
         (\<exists>cp. currentPlayer g = Some cp \<and> player_id cp = w) \<and>
         (\<exists>row col. inGrid row col \<and>
            cellAt (board g) row col = Some (cellOf (currentTurn g)) \<and>
            inRunOfFour (board g) row col)) \<or>
        (status g = forfeited \<and>
         (w = player_id (player1 g) \<or> (\<exists>p2. player2 g = Some p2 \<and> w = player_id p2)))"
      using gi w unfolding gameInv_def by (cases "status g") auto
  qed
  have 3: "status g = completed \<and> winner g = None \<longrightarrow> noEmptyCell (board g)"
    using gi by (auto simp: gameInv_def)
  have 4: "\<forall>playerId column now res gs'.
        makeMove (games s) gameId playerId column now = Some (res, gs') \<and> success res \<longrightarrow>
        (\<exists>g' pos. gs' gameId = Some g' \<and> position res = Some pos \<and>
           (case result_winner res of
              Some w \<Rightarrow>
                w = playerId \<and> status g' = completed \<and> winner g' = Some playerId \<and>
                inRunOfFour (board g') (position_row pos) (position_col pos) \<and>
                cellAt (board g') (position_row pos) (position_col pos) =
                  Some (cellOf (currentTurn g'))
            | None \<Rightarrow>
                (if isDraw res = Some True
                 then status g' = completed \<and> winner g' = None \<and> noEmptyCell (board g') \<and>
                      \<not> inRunOfFour (board g') (position_row pos) (position_col pos)
                 else status g' = active \<and> winner g' = None)))"
    using makeMove_decides [OF ri] by blast
  have 5: "\<forall>playerId p2. status g = active \<and> player2 g = Some p2 \<longrightarrow>
        (\<exists>g'. forfeitGame (games s) gameId playerId = (games s)(gameId \<mapsto> g') \<and>
              status g' = forfeited \<and>
              (playerId = player_id (player1 g) \<and> player_id p2 \<noteq> [] \<longrightarrow>
                 winner g' = Some (player_id p2)) \<and>
              (playerId = player_id p2 \<and> player_id p2 \<noteq> player_id (player1 g) \<and>
               player_id (player1 g) \<noteq> [] \<longrightarrow>
                 winner g' = Some (player_id (player1 g))))"
  proof (intro allI impI)
    fix playerId p2 assume a: "status g = active \<and> player2 g = Some p2"
    from forfeitGame_winner [where gs = "games s" and pid = playerId, OF g] a
    obtain g' where g': "forfeitGame (games s) gameId playerId = (games s)(gameId \<mapsto> g')"
      "status g' = forfeited"
      "winner g' =
             (if player_id (player1 g) = playerId
              then (case player2 g of None \<Rightarrow> None
                    | Some p2 \<Rightarrow> if player_id p2 = [] then None else Some (player_id p2))
              else if player_id (player1 g) = [] then None else Some (player_id (player1 g)))"
      by blast
    show "\<exists>g'. forfeitGame (games s) gameId playerId = (games s)(gameId \<mapsto> g') \<and>
              status g' = forfeited \<and>
              (playerId = player_id (player1 g) \<and> player_id p2 \<noteq> [] \<longrightarrow>
                 winner g' = Some (player_id p2)) \<and>
              (playerId = player_id p2 \<and> player_id p2 \<noteq> player_id (player1 g) \<and>
               player_id (player1 g) \<noteq> [] \<longrightarrow>
                 winner g' = Some (player_id (player1 g)))"
      using g' a by (intro exI [of _ g']) auto
  qed
  from 1 2 3 4 5 show ?thesis by blast
qed

lemma run_opsAliceWins: "run initialSystem opsAliceWins = Some sysAliceWon"
  by (simp add: opsAliceWins_def sysAliceWon_def gameAliceWon_def gameActive_def eval_defs)

lemma run_opsBobForfeits: "run initialSystem opsBobForfeits = Some sysBobForfeited"
  by (simp add: opsBobForfeits_def sysBobForfeited_def gameBobForfeited_def gameActive_def
        eval_defs)

theorem winner_only_when_decided_witness:
  "run initialSystem opsAliceWins = Some sysAliceWon \<and>
   games sysAliceWon ''g1'' = Some gameAliceWon \<and>
   winner gameAliceWon = Some ''id-alice'' \<and> status gameAliceWon = completed \<and>
   (\<exists>cp. currentPlayer gameAliceWon = Some cp \<and> player_id cp = ''id-alice'') \<and>
   (\<exists>row col. inGrid row col \<and>
      cellAt (board gameAliceWon) row col = Some (cellOf (currentTurn gameAliceWon)) \<and>
      inRunOfFour (board gameAliceWon) row col) \<and>
   run initialSystem opsBobForfeits = Some sysBobForfeited \<and>
   games sysBobForfeited ''g1'' = Some gameBobForfeited \<and>
   winner gameBobForfeited = Some ''id-alice'' \<and> status gameBobForfeited = forfeited \<and>
   ''id-alice'' = player_id (player1 gameBobForfeited)"
proof -
  have a: "games sysAliceWon ''g1'' = Some gameAliceWon"
    and b: "games sysBobForfeited ''g1'' = Some gameBobForfeited"
    by (simp_all add: sysAliceWon_def sysBobForfeited_def)
  have wa: "winner gameAliceWon = Some ''id-alice''" "status gameAliceWon = completed"
    and wb: "winner gameBobForfeited = Some ''id-alice''" "status gameBobForfeited = forfeited"
      "''id-alice'' = player_id (player1 gameBobForfeited)"
    by (simp_all add: gameAliceWon_def gameBobForfeited_def gameActive_def gameWaiting_def
          createGame_def alice_def Let_def)
  from winner_only_when_decided [OF run_opsAliceWins a] wa
  have "(\<exists>cp. currentPlayer gameAliceWon = Some cp \<and> player_id cp = ''id-alice'') \<and>
        (\<exists>row col. inGrid row col \<and>
           cellAt (board gameAliceWon) row col = Some (cellOf (currentTurn gameAliceWon)) \<and>
           inRunOfFour (board gameAliceWon) row col)"
    by auto
  moreover from winner_only_when_decided [OF run_opsBobForfeits b] wb
  have "status gameBobForfeited = forfeited" by auto
  ultimately show ?thesis
    using run_opsAliceWins run_opsBobForfeits a b wa wb by blast
qed

section \<open>Rejected operations\<close>

lemma scanRows_full_iff:
  "(scanRows b column (config_game_rows - 1) = - 1) = (\<not> columnHasEmptyCell b column)"
  using scanRows_cases [of b column "config_game_rows - 1"]
  by (auto simp: columnHasEmptyCell_def list_ex_iff)

lemma makeMove_moveError:
  "\<exists>res gs'. makeMove gs gameId playerId column now = Some (res, gs') \<and>
     (case moveError gs gameId playerId column of
        Some e \<Rightarrow> \<not> success res \<and> (\<exists>m. error res = Some m \<and> errorKind m = Some e) \<and> gs' = gs
      | None \<Rightarrow> success res)"
  by (auto simp: makeMove_eq moveError_def scanRows_full_iff failure_def errorKind_def
        moveOutcome_def Let_def split: option.splits)

lemma makeMove_failed_unchanged:
  "makeMove gs gameId playerId column now = Some (res, gs') \<Longrightarrow> \<not> success res \<Longrightarrow> gs' = gs"
  by (auto simp: makeMove_eq moveOutcome_def Let_def split: option.splits if_splits)

lemma joinGame_failed_unchanged:
  "fst (joinGame gs gameId p) = None \<Longrightarrow> snd (joinGame gs gameId p) = gs"
  by (auto simp: joinGame_def Let_def split: option.splits if_splits)

lemma forfeitGame_noop:
  "gs gameId = None \<or> (\<exists>g. gs gameId = Some g \<and> status g \<noteq> active) \<Longrightarrow>
   forfeitGame gs gameId playerId = gs"
  by (auto simp: forfeitGame_def)

lemma length_filter_all: "(length (filter P xs) = length xs) = (\<forall>x \<in> set xs. P x)"
proof (induction xs)
  case Nil
  then show ?case by simp
next
  case (Cons x xs)
  have "length (filter P xs) \<noteq> Suc (length xs)"
    using length_filter_le [of P xs] by linarith
  then show ?case using Cons by auto
qed

lemma piecesInColumn_full:
  "(piecesInColumn b column = nat config_game_rows) = (\<not> columnHasEmptyCell b column)"
proof -
  have len: "nat config_game_rows = length [0..config_game_rows - 1]"
    by (simp add: config_game_rows_def)
  show ?thesis
    unfolding piecesInColumn_def len length_filter_all
    by (auto simp: columnHasEmptyCell_def list_ex_iff)
qed


lemma length_filter_flip:
  "distinct xs \<Longrightarrow> x \<in> set xs \<Longrightarrow> \<not> P x \<Longrightarrow> Q x \<Longrightarrow> (\<forall>y. y \<noteq> x \<longrightarrow> Q y = P y) \<Longrightarrow>
   length (filter Q xs) = Suc (length (filter P xs))"
proof (induction xs)
  case Nil
  then show ?case by simp
next
  case (Cons y ys)
  show ?case
  proof (cases "y = x")
    case True
    then have "x \<notin> set ys" using Cons.prems by simp
    then have "filter Q ys = filter P ys"
      using Cons.prems by (intro filter_cong) auto
    then show ?thesis using True Cons.prems by simp
  next
    case False
    then show ?thesis using Cons by auto
  qed
qed

lemma piecesInColumn_setCell:
  assumes "0 \<le> row" "row < config_game_rows" "cellAt b row column = Some Cell_empty"
    and "v \<noteq> Cell_empty"
  shows "piecesInColumn (setCell b row column v) column = Suc (piecesInColumn b column)"
    and "c \<noteq> column \<Longrightarrow> piecesInColumn (setCell b row column v) c = piecesInColumn b c"
proof -
  show "piecesInColumn (setCell b row column v) column = Suc (piecesInColumn b column)"
    unfolding piecesInColumn_def
    using assms by (intro length_filter_flip [where x = row]) (auto simp: cellAt_setCell)
  show "c \<noteq> column \<Longrightarrow> piecesInColumn (setCell b row column v) c = piecesInColumn b c"
    by (simp add: piecesInColumn_def cellAt_setCell)
qed

lemma piecesInColumn_emptyBoard:
  "0 \<le> c \<Longrightarrow> c < config_game_cols \<Longrightarrow> piecesInColumn emptyBoard c = 0"
  by (auto simp: piecesInColumn_def cellAt_emptyBoard inGrid_def)

lemma makeMove_adds_piece:
  assumes "makeMove gs gameId playerId column now = Some (res, gs')" and "success res"
  shows "\<exists>g g'. gs gameId = Some g \<and> gs' gameId = Some g' \<and>
           piecesInColumn (board g') column = Suc (piecesInColumn (board g) column) \<and>
           (\<forall>c. c \<noteq> column \<longrightarrow> piecesInColumn (board g') c = piecesInColumn (board g) c)"
proof -
  from assms obtain g where g: "gs gameId = Some g"
      "scanRows (board g) column (config_game_rows - 1) \<noteq> - 1"
      "(res, gs') = moveOutcome gs gameId g playerId (scanRows (board g) column (config_game_rows - 1)) column now"
    by (auto simp: makeMove_eq failure_def split: option.splits if_splits)
  define row where "row = scanRows (board g) column (config_game_rows - 1)"
  from scanRows_found [OF row_def [symmetric]] g(2)
  have f: "0 \<le> row" "row < config_game_rows" "cellAt (board g) row column = Some Cell_empty"
    by (simp_all add: row_def)
  note p = piecesInColumn_setCell [OF f, of "cellOf (currentTurn g)", simplified]
  obtain g' where g': "gs' gameId = Some g'"
    "board g' = setCell (board g) row column (cellOf (currentTurn g))"
    using g(3) unfolding row_def [symmetric]
    by (auto simp: moveOutcome_def Let_def placed_def split: if_splits)
  show ?thesis using g(1) g' p by auto
qed

text \<open>
  C2. In a state the operations can reach, \<open>makeMove\<close> always returns. When the
  spec's order of checks gives a reason to fail
  (\<open>NotFound\<close>: no session under the id; else \<open>NotActive\<close>: status other than active; else
  \<open>NotYourTurn\<close>: the caller's id is not that of the side to move; else \<open>InvalidColumn\<close>:
  the column is out of range or has no empty cell), the result is a failure whose message
  is of that kind and the registry is unchanged; when it gives none, the move succeeds.
  A failed \<open>makeMove\<close>, a \<open>joinGame\<close> that returns null and a \<open>forfeitGame\<close> on an absent or
  inactive session leave the registry as it was. A new grid holds no piece, an accepted
  move adds exactly one piece to its column and none elsewhere, and a move into a column
  that holds six pieces fails, with the message "Column is full" when the checks get as
  far as the column.
\<close>

theorem makeMove_rejects:
  assumes reach: "run initialSystem ops = Some s"
  shows "\<exists>res gs'. makeMove (games s) gameId playerId column now = Some (res, gs') \<and>
     (case moveError (games s) gameId playerId column of
        Some e \<Rightarrow> \<not> success res \<and> (\<exists>m. error res = Some m \<and> errorKind m = Some e) \<and> gs' = games s
      | None \<Rightarrow> success res) \<and>
     (\<not> success res \<longrightarrow> gs' = games s) \<and>
     (fst (joinGame (games s) gameId p) = None \<longrightarrow> snd (joinGame (games s) gameId p) = games s) \<and>
     (games s gameId = None \<or> (\<exists>g. games s gameId = Some g \<and> status g \<noteq> active) \<longrightarrow>
        forfeitGame (games s) gameId playerId = games s) \<and>
     (0 \<le> column \<and> column < config_game_cols \<longrightarrow> piecesInColumn emptyBoard column = 0) \<and>
     (success res \<longrightarrow>
        (\<exists>g g'. games s gameId = Some g \<and> gs' gameId = Some g' \<and>
           piecesInColumn (board g') column = Suc (piecesInColumn (board g) column) \<and>
           (\<forall>c. c \<noteq> column \<longrightarrow> piecesInColumn (board g') c = piecesInColumn (board g) c))) \<and>
     (\<forall>g. games s gameId = Some g \<and> piecesInColumn (board g) column = 6 \<longrightarrow>
        \<not> success res \<and>
        (status g = active \<and> map_option player_id (currentPlayer g) = Some playerId \<and>
         0 \<le> column \<and> column < config_game_cols \<longrightarrow> error res = Some ''Column is full''))"
proof -
  define gs where "gs = games s"
  from makeMove_moveError [of gs gameId playerId column now] obtain res gs' where
    m: "makeMove gs gameId playerId column now = Some (res, gs')"
    and e: "case moveError gs gameId playerId column of
        Some e \<Rightarrow> \<not> success res \<and> (\<exists>m. error res = Some m \<and> errorKind m = Some e) \<and> gs' = gs
      | None \<Rightarrow> success res"
    by blast
  have six: "\<forall>g. gs gameId = Some g \<and> piecesInColumn (board g) column = 6 \<longrightarrow>
        \<not> success res \<and>
        (status g = active \<and> map_option player_id (currentPlayer g) = Some playerId \<and>
         0 \<le> column \<and> column < config_game_cols \<longrightarrow> error res = Some ''Column is full'')"
  proof (intro allI impI)
    fix g assume a: "gs gameId = Some g \<and> piecesInColumn (board g) column = 6"
    then have "piecesInColumn (board g) column = nat config_game_rows"
      by (simp add: config_game_rows_def)
    then have full: "scanRows (board g) column (config_game_rows - 1) = - 1"
      by (simp add: piecesInColumn_full scanRows_full_iff)
    show "\<not> success res \<and>
        (status g = active \<and> map_option player_id (currentPlayer g) = Some playerId \<and>
         0 \<le> column \<and> column < config_game_cols \<longrightarrow> error res = Some ''Column is full'')"
      using m a full by (auto simp: makeMove_eq failure_def split: if_splits)
  qed
  show ?thesis
    unfolding gs_def [symmetric]
    using m e six makeMove_failed_unchanged [OF m] makeMove_adds_piece [OF m]
      joinGame_failed_unchanged [of gs gameId p] forfeitGame_noop [of gs gameId playerId]
      piecesInColumn_emptyBoard [of column]
    by (intro exI [of _ res] exI [of _ gs']) blast
qed

lemma run_sysActive:
  "run initialSystem [CreateGame ''g1'' alice 0, JoinGame ''g1'' bob] = Some sysActive"
  by (simp add: sysActive_def gameActive_def eval_defs)

lemma run_opsFillColumn: "run initialSystem opsFillColumn = Some sysColumnFull"
  by (simp add: opsFillColumn_def sysColumnFull_def gameColumnFull_def gameActive_def eval_defs)


theorem makeMove_rejects_witness:
  "run initialSystem opsFillColumn = Some sysColumnFull \<and>
   piecesInColumn (board gameColumnFull) 0 = 6 \<and>
   (\<exists>res. makeMove (games sysColumnFull) ''g1'' ''id-alice'' 0 9 = Some (res, games sysColumnFull) \<and>
          \<not> success res \<and> error res = Some ''Column is full'') \<and>
   run initialSystem [] = Some initialSystem \<and>
   (\<exists>res m. makeMove (games initialSystem) ''g1'' ''id-alice'' 0 9 =
              Some (res, games initialSystem) \<and>
          \<not> success res \<and> error res = Some m \<and> errorKind m = Some NotFound) \<and>
   (\<exists>res m. makeMove (games sysAliceWon) ''g1'' ''id-bob'' 1 9 = Some (res, games sysAliceWon) \<and>
          \<not> success res \<and> error res = Some m \<and> errorKind m = Some NotActive) \<and>
   (\<exists>res m. makeMove (games sysActive) ''g1'' ''id-bob'' 1 9 = Some (res, games sysActive) \<and>
          \<not> success res \<and> error res = Some m \<and> errorKind m = Some NotYourTurn) \<and>
   (\<exists>res m. makeMove (games sysActive) ''g1'' ''id-alice'' 7 9 = Some (res, games sysActive) \<and>
          \<not> success res \<and> error res = Some m \<and> errorKind m = Some InvalidColumn) \<and>
   fst (joinGame (games sysActive) ''g1'' bob) = None \<and>
   snd (joinGame (games sysActive) ''g1'' bob) = games sysActive \<and>
   forfeitGame (games sysAliceWon) ''g1'' ''id-bob'' = games sysAliceWon"
proof -
  have six: "piecesInColumn (board gameColumnFull) 0 = 6"
    by (simp add: piecesInColumn_def gameColumnFull_def cellAt_def config_game_rows_def
          upto.simps)
  have g: "games sysColumnFull ''g1'' = Some gameColumnFull"
    "status gameColumnFull = active"
    "map_option player_id (currentPlayer gameColumnFull) = Some ''id-alice''"
    by (simp_all add: sysColumnFull_def gameColumnFull_def gameActive_def gameWaiting_def
          createGame_def Let_def currentPlayer_def alice_def)
  have 1: "\<exists>res. makeMove (games sysColumnFull) ''g1'' ''id-alice'' 0 9 = Some (res, games sysColumnFull) \<and>
          \<not> success res \<and> error res = Some ''Column is full''"
    using makeMove_rejects [OF run_opsFillColumn, of "''g1''" "''id-alice''" 0 9 bob] six g
    by (auto simp: config_game_cols_def)
  have r0: "run initialSystem [] = Some initialSystem" by simp
  have 2: "\<exists>res m. makeMove (games initialSystem) ''g1'' ''id-alice'' 0 9 =
              Some (res, games initialSystem) \<and>
          \<not> success res \<and> error res = Some m \<and> errorKind m = Some NotFound"
    using makeMove_rejects [OF r0, of "''g1''" "''id-alice''" 0 9 bob]
    by (auto simp: moveError_def initialSystem_def)
  have 3: "\<exists>res m. makeMove (games sysAliceWon) ''g1'' ''id-bob'' 1 9 = Some (res, games sysAliceWon) \<and>
          \<not> success res \<and> error res = Some m \<and> errorKind m = Some NotActive"
    using makeMove_rejects [OF run_opsAliceWins, of "''g1''" "''id-bob''" 1 9 bob]
    by (auto simp: moveError_def sysAliceWon_def gameAliceWon_def)
  have 4: "\<exists>res m. makeMove (games sysActive) ''g1'' ''id-bob'' 1 9 = Some (res, games sysActive) \<and>
          \<not> success res \<and> error res = Some m \<and> errorKind m = Some NotYourTurn"
    using makeMove_rejects [OF run_sysActive, of "''g1''" "''id-bob''" 1 9 bob]
    by (auto simp: moveError_def sysActive_def gameActive_def gameWaiting_def createGame_def
          Let_def currentPlayer_def alice_def)
  have 5: "\<exists>res m. makeMove (games sysActive) ''g1'' ''id-alice'' 7 9 = Some (res, games sysActive) \<and>
          \<not> success res \<and> error res = Some m \<and> errorKind m = Some InvalidColumn"
    using makeMove_rejects [OF run_sysActive, of "''g1''" "''id-alice''" 7 9 bob]
    by (auto simp: moveError_def sysActive_def gameActive_def gameWaiting_def createGame_def
          Let_def currentPlayer_def alice_def config_game_cols_def)
  have j: "fst (joinGame (games sysActive) ''g1'' bob) = None"
    by (simp add: sysActive_def gameActive_def joinGame_def)
  have 6: "snd (joinGame (games sysActive) ''g1'' bob) = games sysActive"
    using makeMove_rejects [OF run_sysActive, of "''g1''" "''id-alice''" 7 9 bob] j by blast
  have 7: "forfeitGame (games sysAliceWon) ''g1'' ''id-bob'' = games sysAliceWon"
    using makeMove_rejects [OF run_opsAliceWins, of "''g1''" "''id-bob''" 1 9 bob]
    by (auto simp: sysAliceWon_def gameAliceWon_def)
  from run_opsFillColumn six 1 r0 2 3 4 5 j 6 7 show ?thesis by blast
qed

section \<open>The handler resolves the caller by connection\<close>

lemma moveError_none:
  "gs gameId = Some g \<Longrightarrow> status g = active \<Longrightarrow>
   map_option player_id (currentPlayer g) = Some playerId \<Longrightarrow>
   0 \<le> column \<Longrightarrow> column < config_game_cols \<Longrightarrow> columnHasEmptyCell (board g) column \<Longrightarrow>
   moveError gs gameId playerId column = None"
  by (simp add: moveError_def)

text \<open>
  C9, as it stands, fails: in the session bob has forfeited it is player2's turn by
  \<open>currentTurn\<close>, column 1 is legal, the connection \<open>socket-x\<close> is not player1's, and the
  move is rejected because the session is not active.
\<close>

theorem handleMakeMove_inactive_counterexample:
  "run initialSystem opsBobForfeits = Some sysBobForfeited \<and>
   games sysBobForfeited ''g1'' = Some gameBobForfeited \<and>
   player2 gameBobForfeited = Some bob \<and>
   ''socket-x'' \<noteq> socketId (player1 gameBobForfeited) \<and>
   currentTurn gameBobForfeited = Turn_player2 \<and>
   (0::int) \<le> 1 \<and> 1 < config_game_cols \<and> columnHasEmptyCell (board gameBobForfeited) 1 \<and>
   handleMakeMove (games sysBobForfeited) ''socket-x'' ''g1'' 1 9 =
     Some (Emit_error (Some ''Game is not active''), games sysBobForfeited)"
  using run_opsBobForfeits
  by (simp add: sysBobForfeited_def gameBobForfeited_def gameActive_def gameWaiting_def
        createGame_def Let_def alice_def bob_def config_game_cols_def config_game_rows_def
        columnHasEmptyCell_def cellAt_def emptyRow_eval upto.simps
        handleMakeMove_def getGame_def resolvePlayer_def makeMove_eq failure_def)

text \<open>
  C9, amended. In a state the operations can reach, for a registered session with a second participant, a \<open>make_move\<close> on any
  connection whose handle is not player1's is resolved to player2: the handler calls
  \<open>makeMove\<close> with player2's id, relays its failure or accepts its result, and never
  answers "Player not found in game". When the session is active, it is player2's turn and
  the column is in range with an empty cell, the move succeeds and a piece of player2
  enters the column.
\<close>

theorem handleMakeMove_attributes_to_player2:
  assumes reach: "run initialSystem ops = Some s"
    and g: "games s gameId = Some g" and p2: "player2 g = Some p2"
    and sock: "socket_id \<noteq> socketId (player1 g)"
  shows "resolvePlayer g socket_id = Some p2 \<and>
     (\<exists>res gs'.
        makeMove (games s) gameId (player_id p2) column now = Some (res, gs') \<and>
        handleMakeMove (games s) socket_id gameId column now =
          Some (if success res then Move_accepted res else Emit_error (error res), gs') \<and>
        (status g = active \<and> currentTurn g = Turn_player2 \<and>
         0 \<le> column \<and> column < config_game_cols \<and> columnHasEmptyCell (board g) column \<longrightarrow>
           success res \<and>
           (\<exists>g'. gs' gameId = Some g' \<and>
              piecesInColumn (board g') column = Suc (piecesInColumn (board g) column) \<and>
              (\<exists>pos. position res = Some pos \<and> position_col pos = column \<and>
                 cellAt (board g') (position_row pos) column = Some Cell_player2))))"
proof -
  define gs where "gs = games s"
  have assms: "gs gameId = Some g" "player2 g = Some p2" "socket_id \<noteq> socketId (player1 g)"
    using g p2 sock by (simp_all add: gs_def)
  have r: "resolvePlayer g socket_id = Some p2"
    using assms by (simp add: resolvePlayer_def)
  from makeMove_moveError [of gs gameId "player_id p2" column now] obtain res gs' where
    m: "makeMove gs gameId (player_id p2) column now = Some (res, gs')"
    and e: "case moveError gs gameId (player_id p2) column of
        Some e \<Rightarrow> \<not> success res \<and> (\<exists>m. error res = Some m \<and> errorKind m = Some e) \<and> gs' = gs
      | None \<Rightarrow> success res"
    by blast
  have h: "handleMakeMove gs socket_id gameId column now =
          Some (if success res then Move_accepted res else Emit_error (error res), gs')"
    using assms(1) r m by (simp add: handleMakeMove_def getGame_def)
  have ok: "status g = active \<and> currentTurn g = Turn_player2 \<and>
         0 \<le> column \<and> column < config_game_cols \<and> columnHasEmptyCell (board g) column \<longrightarrow>
           success res \<and>
           (\<exists>g'. gs' gameId = Some g' \<and>
              piecesInColumn (board g') column = Suc (piecesInColumn (board g) column) \<and>
              (\<exists>pos. position res = Some pos \<and> position_col pos = column \<and>
                 cellAt (board g') (position_row pos) column = Some Cell_player2))"
  proof
    assume a: "status g = active \<and> currentTurn g = Turn_player2 \<and>
         0 \<le> column \<and> column < config_game_cols \<and> columnHasEmptyCell (board g) column"
    then have cpl: "map_option player_id (currentPlayer g) = Some (player_id p2)"
      using assms(2) by (simp add: currentPlayer_def)
    have s: "success res"
      using e moveError_none [where gs = gs, OF assms(1) _ cpl] a by simp
    from makeMove_adds_piece [OF m s] assms(1) obtain g' where
      g': "gs' gameId = Some g'"
        "piecesInColumn (board g') column = Suc (piecesInColumn (board g) column)"
      by auto
    have nf: "scanRows (board g) column (config_game_rows - 1) \<noteq> - 1"
      using a by (simp add: scanRows_full_iff)
    note f = scanRows_found [OF refl nf]
    have "(res, gs') = moveOutcome gs gameId g (player_id p2)
             (scanRows (board g) column (config_game_rows - 1)) column now"
      using m assms(1) a cpl nf by (simp add: makeMove_eq)
    then have "\<exists>pos. position res = Some pos \<and> position_col pos = column \<and>
                 cellAt (board g') (position_row pos) column = Some Cell_player2"
      using g'(1) a f
      by (auto simp: moveOutcome_def Let_def placed_def cellAt_setCell split: if_splits)
    with s g' show "success res \<and>
           (\<exists>g'. gs' gameId = Some g' \<and>
              piecesInColumn (board g') column = Suc (piecesInColumn (board g) column) \<and>
              (\<exists>pos. position res = Some pos \<and> position_col pos = column \<and>
                 cellAt (board g') (position_row pos) column = Some Cell_player2))"
      by blast
  qed
  from r m h ok show ?thesis unfolding gs_def by blast
qed

lemma run_opsBobToMove: "run initialSystem opsBobToMove = Some sysBobToMove"
  by (simp add: opsBobToMove_def sysBobToMove_def gameBobToMove_def gameActive_def eval_defs)

theorem handleMakeMove_attributes_to_player2_witness:
  "run initialSystem opsBobToMove = Some sysBobToMove \<and>
   games sysBobToMove ''g1'' = Some gameBobToMove \<and> player2 gameBobToMove = Some bob \<and>
   ''socket-x'' \<noteq> socketId (player1 gameBobToMove) \<and> ''socket-x'' \<noteq> socketId bob \<and>
   status gameBobToMove = active \<and> currentTurn gameBobToMove = Turn_player2 \<and>
   columnHasEmptyCell (board gameBobToMove) 1 \<and>
   resolvePlayer gameBobToMove ''socket-x'' = Some bob \<and>
   (\<exists>res gs'. handleMakeMove (games sysBobToMove) ''socket-x'' ''g1'' 1 9 =
                 Some (Move_accepted res, gs') \<and> success res)"
proof -
  have h: "games sysBobToMove ''g1'' = Some gameBobToMove" "player2 gameBobToMove = Some bob"
    "''socket-x'' \<noteq> socketId (player1 gameBobToMove)"
    by (simp_all add: sysBobToMove_def gameBobToMove_def gameActive_def gameWaiting_def
          createGame_def Let_def alice_def)
  have k: "''socket-x'' \<noteq> socketId bob" "status gameBobToMove = active"
    "currentTurn gameBobToMove = Turn_player2" "columnHasEmptyCell (board gameBobToMove) 1"
    "(0::int) \<le> 1" "1 < config_game_cols"
    by (simp_all add: gameBobToMove_def gameActive_def bob_def columnHasEmptyCell_def
          cellAt_def emptyRow_eval config_game_rows_def config_game_cols_def upto.simps)
  from handleMakeMove_attributes_to_player2 [where column = 1 and now = 9, OF run_opsBobToMove h] k
  have "resolvePlayer gameBobToMove ''socket-x'' = Some bob \<and>
        (\<exists>res gs'. handleMakeMove (games sysBobToMove) ''socket-x'' ''g1'' 1 9 =
                 Some (Move_accepted res, gs') \<and> success res)"
    by auto
  with run_opsBobToMove h k show ?thesis by blast
qed

section \<open>The waiting set\<close>

lemma set_mapSet: "set (mapSet q k v) \<subseteq> insert (k, v) (set q)"
  by (induction q k v rule: mapSet.induct) (auto split: if_splits)

lemma fst_set_mapSet: "fst ` set (mapSet q k v) = insert k (fst ` set q)"
  by (induction q k v rule: mapSet.induct) (force split: if_splits)+

lemma distinct_mapSet: "distinct (map fst q) \<Longrightarrow> distinct (map fst (mapSet q k v))"
proof (induction q)
  case Nil
  then show ?case by simp
next
  case (Cons a q)
  obtain k' v' where a: "a = (k', v')" by (cases a)
  show ?case
  proof (cases "k' = k")
    case True
    then show ?thesis using Cons.prems a by (simp add: image_iff)
  next
    case False
    have "k' \<notin> fst ` set (mapSet q k v)"
      using False Cons.prems a unfolding fst_set_mapSet by simp
    then show ?thesis using False Cons a by simp
  qed
qed

lemma map_of_mapSet: "map_of (mapSet q k v) k = Some v"
  by (induction q k v rule: mapSet.induct) auto

lemma queueInv_mapDelete: "queueInv q \<Longrightarrow> queueInv (mapDelete q k)"
  by (auto simp: queueInv_def mapDelete_def distinct_map_filter)

lemma map_of_mapDelete: "map_of (mapDelete q k) k = None"
  by (induction q) (auto simp: mapDelete_def)

lemma mapDelete_first:
  "distinct (map fst ((k, v) # rest)) \<Longrightarrow> mapDelete ((k, v) # rest) k = rest"
  by (auto simp: mapDelete_def filter_id_conv image_iff)

lemma queueInv_mapSet:
  assumes "queueInv q" and "socketId (player v) = k"
    and "\<forall>kv \<in> set q. player_id (player (snd kv)) = player_id (player v)"
  shows "queueInv (mapSet q k v)"
proof -
  have sub: "set (mapSet q k v) \<subseteq> insert (k, v) (set q)" by (rule set_mapSet)
  have d: "distinct (map fst (mapSet q k v))"
    using assms(1) by (simp add: queueInv_def distinct_mapSet)
  have key: "\<forall>kv \<in> set (mapSet q k v). socketId (player (snd kv)) = fst kv"
    using sub assms(1,2) by (auto simp: queueInv_def)
  have ids: "\<forall>kv \<in> set (mapSet q k v). player_id (player (snd kv)) = player_id (player v)"
    using sub assms(3) by auto
  show ?thesis unfolding queueInv_def using d key ids by simp
qed

lemma queueInv_same_id:
  "queueInv ((k, e) # rest) \<Longrightarrow> kv \<in> set ((k, e) # rest) \<Longrightarrow>
   player_id (player (snd kv)) = player_id (player e)"
proof -
  assume inv: "queueInv ((k, e) # rest)" and kv: "kv \<in> set ((k, e) # rest)"
  from inv have "\<forall>a \<in> set ((k, e) # rest). \<forall>b \<in> set ((k, e) # rest).
      player_id (player (snd a)) = player_id (player (snd b))"
    unfolding queueInv_def by blast
  from bspec [OF bspec [OF this kv], of "(k, e)"] show ?thesis by simp
qed

lemma enqueueWaiting_queue:
  "waitingPlayers (snd (enqueueWaiting s caller)) =
     mapSet (waitingPlayers s) (socketId caller)
       \<lparr> player = caller, timeout = nextHandle (timers s) \<rparr>"
  by (simp add: enqueueWaiting_def setTimeout_def Let_def)

lemma addPlayerToQueue_queue:
  "waitingPlayers (snd (addPlayerToQueue s caller gid now)) =
     (case waitingPlayers s of
        [] \<Rightarrow> mapSet [] (socketId caller) \<lparr> player = caller, timeout = nextHandle (timers s) \<rparr>
      | kv # rest \<Rightarrow>
          if player_id (player (snd kv)) \<noteq> player_id caller
          then mapDelete (waitingPlayers s) (socketId (player (snd kv)))
          else mapSet (waitingPlayers s) (socketId caller)
                 \<lparr> player = caller, timeout = nextHandle (timers s) \<rparr>)"
proof (cases "waitingPlayers s")
  case Nil
  then show ?thesis
    by (simp add: addPlayerToQueue_def firstValue_def enqueueWaiting_queue)
next
  case (Cons kv rest)
  then show ?thesis
    by (simp add: addPlayerToQueue_def firstValue_def enqueueWaiting_queue case_prod_beta Let_def)
qed

lemma addPlayerToQueue_inv:
  assumes "queueInv (waitingPlayers s)"
  shows "queueInv (waitingPlayers (snd (addPlayerToQueue s caller gid now)))"
proof (cases "waitingPlayers s")
  case Nil
  then show ?thesis
    by (simp add: addPlayerToQueue_queue queueInv_def)
next
  case (Cons kv rest)
  obtain k e where kv: "kv = (k, e)" by (cases kv)
  show ?thesis
  proof (cases "player_id (player e) \<noteq> player_id caller")
    case True
    then show ?thesis using assms Cons kv
      by (simp add: addPlayerToQueue_queue queueInv_mapDelete)
  next
    case False
    have "\<forall>kv' \<in> set (waitingPlayers s).
            player_id (player (snd kv')) =
            player_id (player \<lparr> player = caller, timeout = nextHandle (timers s) \<rparr>)"
      using queueInv_same_id [of k e rest] assms Cons kv False by auto
    from queueInv_mapSet [OF assms _ this] show ?thesis
      using Cons kv False by (simp add: addPlayerToQueue_queue)
  qed
qed




lemma matchWithBot_queue:
  "waitingPlayers (matchWithBot s p botId gid now) = waitingPlayers s \<or>
   waitingPlayers (matchWithBot s p botId gid now) = mapDelete (waitingPlayers s) (socketId p)"
  by (auto simp: matchWithBot_def Let_def split_beta split: option.splits)




lemma removePlayerFromQueue_inv:
  "queueInv (waitingPlayers s) \<Longrightarrow> queueInv (waitingPlayers (removePlayerFromQueue s sock))"
  by (auto simp: removePlayerFromQueue_def queueInv_mapDelete split: option.splits)

lemma fireTimer_inv:
  "queueInv (waitingPlayers s) \<Longrightarrow> queueInv (waitingPlayers (fireTimer s h botId gid now))"
proof -
  assume a: "queueInv (waitingPlayers s)"
  show ?thesis
  proof (cases "armed (timers s) h")
    case None
    then show ?thesis using a by (simp add: fireTimer_def)
  next
    case (Some cb)
    obtain p where cb: "cb = MatchWithBot p" by (cases cb)
    show ?thesis
      using a Some cb
        matchWithBot_queue [of "s\<lparr> timers := clearTimeout (timers s) h \<rparr>" p botId gid now]
      by (auto simp: fireTimer_def queueInv_mapDelete)
  qed
qed

lemma exec_queue_registry_ops:
  "waitingPlayers (s\<lparr> games := gs \<rparr>) = waitingPlayers s"
  "waitingPlayers (s\<lparr> games := gs, timers := t \<rparr>) = waitingPlayers s"
  by simp_all

lemma exec_queueInv:
  assumes "queueInv (waitingPlayers s)" and "exec s op = Some s'"
  shows "queueInv (waitingPlayers s')"
proof (cases op)
  case (CreateGame gid p now)
  then show ?thesis using assms by auto
next
  case (JoinGame gid p)
  then show ?thesis using assms by auto
next
  case (MakeMove gid pid column now)
  obtain res gs' where m: "makeMove (games s) gid pid column now = Some (res, gs')"
    using makeMove_total by blast
  then show ?thesis using assms MakeMove by auto
next
  case (ForfeitGame gid pid)
  then show ?thesis using assms by auto
next
  case (SetDisconnected gid pid)
  then show ?thesis using assms by auto
next
  case (ClearDisconnected gid)
  then show ?thesis using assms by (auto simp: case_prod_beta)
next
  case (AddPlayerToQueue caller gid now)
  then have "s' = snd (addPlayerToQueue s caller gid now)" using assms(2) by simp
  then show ?thesis using addPlayerToQueue_inv [OF assms(1)] by simp
next
  case (FireTimer h botId gid now)
  then have "s' = fireTimer s h botId gid now" using assms(2) by simp
  then show ?thesis using fireTimer_inv [OF assms(1)] by simp
next
  case (RemovePlayerFromQueue sock)
  then have "s' = removePlayerFromQueue s sock" using assms(2) by simp
  then show ?thesis using removePlayerFromQueue_inv [OF assms(1)] by simp
qed

lemma run_queueInv:
  "queueInv (waitingPlayers s) \<Longrightarrow> run s ops = Some s' \<Longrightarrow> queueInv (waitingPlayers s')"
proof (induction ops arbitrary: s)
  case Nil then show ?case by simp
next
  case (Cons op ops)
  from Cons.prems(2) obtain s1 where s1: "exec s op = Some s1" "run s1 ops = Some s'"
    by (auto split: option.splits)
  from exec_queueInv [OF Cons.prems(1) s1(1)] Cons.IH s1(2) show ?case by blast
qed

lemma reachable_queueInv:
  assumes "run initialSystem ops = Some s"
  shows "queueInv (waitingPlayers s)"
proof -
  have "queueInv (waitingPlayers initialSystem)"
    by (simp add: initialSystem_def queueInv_def)
  then show ?thesis using assms by (rule run_queueInv)
qed

section \<open>Matchmaking\<close>

lemma createJoin_paired:
  "snd (joinGame (snd (createGame gs gid p now)) gid q) = gs(gid \<mapsto> pairedGame gid p q now)"
  by (simp add: createGame_def joinGame_def Let_def pairedGame_def)

lemma addPlayerToQueue_match:
  assumes "waitingPlayers s = (k, e) # rest" and "player_id (player e) \<noteq> player_id caller"
  shows "addPlayerToQueue s caller gid now =
     (Some gid,
      s\<lparr> games := (games s)(gid \<mapsto> pairedGame gid (player e) caller now),
         waitingPlayers := mapDelete (waitingPlayers s) (socketId (player e)),
         timers := clearTimeout (timers s) (timeout e) \<rparr>)"
  using assms
  by (simp add: addPlayerToQueue_def firstValue_def createGame_def joinGame_def Let_def
        pairedGame_def)

lemma addPlayerToQueue_wait:
  assumes "waitingPlayers s = [] \<or>
           (\<exists>k e rest. waitingPlayers s = (k, e) # rest \<and> player_id (player e) = player_id caller)"
  shows "addPlayerToQueue s caller gid now = enqueueWaiting s caller"
  using assms by (auto simp: addPlayerToQueue_def firstValue_def)

lemma enqueueWaiting_eq:
  "enqueueWaiting s caller =
     (None,
      s\<lparr> waitingPlayers := mapSet (waitingPlayers s) (socketId caller)
                              \<lparr> player = caller, timeout = nextHandle (timers s) \<rparr>,
         timers := (timers s)\<lparr> armed := (armed (timers s))(nextHandle (timers s) \<mapsto> MatchWithBot caller),
                               nextHandle := Suc (nextHandle (timers s)) \<rparr> \<rparr>)"
  by (simp add: enqueueWaiting_def setTimeout_def)


lemma distinctWaitingEntry_first:
  assumes "queueInv q"
  shows "distinctWaitingEntry q caller =
     (\<exists>k e rest. q = (k, e) # rest \<and> player_id (player e) \<noteq> player_id caller)"
proof (cases q)
  case Nil
  then show ?thesis by (simp add: distinctWaitingEntry_def)
next
  case (Cons kv rest)
  obtain k e where kv: "kv = (k, e)" by (cases kv)
  have same: "\<And>kv'. kv' \<in> set q \<Longrightarrow> player_id (player (snd kv')) = player_id (player e)"
    using queueInv_same_id [of k e rest] assms Cons kv by simp
  have "distinctWaitingEntry q caller = (player_id (player e) \<noteq> player_id caller)"
  proof
    assume "distinctWaitingEntry q caller"
    then obtain kv' where "kv' \<in> set q" "player_id (player (snd kv')) \<noteq> player_id caller"
      by (auto simp: distinctWaitingEntry_def list_ex_iff)
    then show "player_id (player e) \<noteq> player_id caller" using same by metis
  next
    assume "player_id (player e) \<noteq> player_id caller"
    then show "distinctWaitingEntry q caller"
      using Cons kv by (simp add: distinctWaitingEntry_def)
  qed
  then show ?thesis using Cons kv by simp
qed

lemma queueInv_key: "queueInv ((k, e) # rest) \<Longrightarrow> k = socketId (player e)"
  by (simp add: queueInv_def)

text \<open>
  C5. In a state the operations can reach, \<open>addPlayerToQueue\<close> does one of two things.
  If some waiting entry carries an identity other than the caller's, then the first
  waiting entry does, and the caller is matched with it at once: its timer is armed no
  more, it is out of the waiting set (the other entries stay), a session under the fresh
  id holds that entry's participant as player1 and the caller as player2 and is active,
  no other session changes, and the id is returned. Otherwise nothing is returned, the
  registry is unchanged, and the caller is in the waiting set under its connection handle
  with a newly armed timer that will run \<open>matchWithBot\<close> for it. In particular, from an
  empty waiting set, two calls by participants of different identity return nothing and
  then a session id, and that session has the first caller as player1 and the second as
  player2.
\<close>

theorem addPlayerToQueue_matches:
  assumes reach: "run initialSystem ops = Some s"
  shows
    "(if distinctWaitingEntry (waitingPlayers s) caller then
        (\<exists>e rest s'.
           waitingPlayers s = (socketId (player e), e) # rest \<and>
           player_id (player e) \<noteq> player_id caller \<and>
           addPlayerToQueue s caller gameId now = (Some gameId, s') \<and>
           armed (timers s') (timeout e) = None \<and>
           waitingPlayers s' = rest \<and>
           map_of (waitingPlayers s') (socketId (player e)) = None \<and>
           games s' gameId = Some (pairedGame gameId (player e) caller now) \<and>
           (\<forall>k. k \<noteq> gameId \<longrightarrow> games s' k = games s k))
      else
        (\<exists>s'.
           addPlayerToQueue s caller gameId now = (None, s') \<and>
           games s' = games s \<and>
           map_of (waitingPlayers s') (socketId caller) =
             Some \<lparr> player = caller, timeout = nextHandle (timers s) \<rparr> \<and>
           armed (timers s') (nextHandle (timers s)) = Some (MatchWithBot caller))) \<and>
     (waitingPlayers s = [] \<and> player_id first \<noteq> player_id second \<longrightarrow>
        (\<exists>s1 s2.
           addPlayerToQueue s first gameId1 now1 = (None, s1) \<and>
           addPlayerToQueue s1 second gameId now = (Some gameId, s2) \<and>
           games s2 gameId = Some (pairedGame gameId first second now) \<and>
           player1 (pairedGame gameId first second now) = first \<and>
           player2 (pairedGame gameId first second now) = Some second \<and>
           waitingPlayers s2 = []))"
proof -
  have qi: "queueInv (waitingPlayers s)" using reach by (rule reachable_queueInv)
  have A: "if distinctWaitingEntry (waitingPlayers s) caller then
        (\<exists>e rest s'.
           waitingPlayers s = (socketId (player e), e) # rest \<and>
           player_id (player e) \<noteq> player_id caller \<and>
           addPlayerToQueue s caller gameId now = (Some gameId, s') \<and>
           armed (timers s') (timeout e) = None \<and>
           waitingPlayers s' = rest \<and>
           map_of (waitingPlayers s') (socketId (player e)) = None \<and>
           games s' gameId = Some (pairedGame gameId (player e) caller now) \<and>
           (\<forall>k. k \<noteq> gameId \<longrightarrow> games s' k = games s k))
      else
        (\<exists>s'.
           addPlayerToQueue s caller gameId now = (None, s') \<and>
           games s' = games s \<and>
           map_of (waitingPlayers s') (socketId caller) =
             Some \<lparr> player = caller, timeout = nextHandle (timers s) \<rparr> \<and>
           armed (timers s') (nextHandle (timers s)) = Some (MatchWithBot caller))"
  proof (cases "distinctWaitingEntry (waitingPlayers s) caller")
    case True
    then obtain k e rest where q0: "waitingPlayers s = (k, e) # rest"
      and ne: "player_id (player e) \<noteq> player_id caller"
      unfolding distinctWaitingEntry_first [OF qi] by blast
    have "k = socketId (player e)" using qi unfolding q0 by (rule queueInv_key)
    with q0 have q: "waitingPlayers s = (socketId (player e), e) # rest" by simp
    have d: "distinct (map fst ((socketId (player e), e) # rest))"
      using qi q by (simp add: queueInv_def)
    have del: "mapDelete (waitingPlayers s) (socketId (player e)) = rest"
      unfolding q using d by (rule mapDelete_first)
    have gone: "map_of rest (socketId (player e)) = None"
      using d by (simp add: map_of_eq_None_iff)
    let ?s' = "s\<lparr> games := (games s)(gameId \<mapsto> pairedGame gameId (player e) caller now),
         waitingPlayers := mapDelete (waitingPlayers s) (socketId (player e)),
         timers := clearTimeout (timers s) (timeout e) \<rparr>"
    have "addPlayerToQueue s caller gameId now = (Some gameId, ?s')"
      using q ne by (rule addPlayerToQueue_match)
    then show ?thesis
      using True q ne del gone
      by (intro iffD2 [OF if_P [OF True, THEN eq_reflection [THEN meta_eq_to_obj_eq]]]
            exI [of _ e] exI [of _ rest] exI [of _ ?s'])
         (simp add: clearTimeout_def)
  next
    case False
    then have w: "waitingPlayers s = [] \<or>
           (\<exists>k e rest. waitingPlayers s = (k, e) # rest \<and> player_id (player e) = player_id caller)"
      unfolding distinctWaitingEntry_first [OF qi]
      by (cases "waitingPlayers s") auto
    have "addPlayerToQueue s caller gameId now = enqueueWaiting s caller"
      using w by (rule addPlayerToQueue_wait)
    then show ?thesis
      using False by (simp add: enqueueWaiting_eq map_of_mapSet)
  qed
  have B: "waitingPlayers s = [] \<and> player_id first \<noteq> player_id second \<longrightarrow>
        (\<exists>s1 s2.
           addPlayerToQueue s first gameId1 now1 = (None, s1) \<and>
           addPlayerToQueue s1 second gameId now = (Some gameId, s2) \<and>
           games s2 gameId = Some (pairedGame gameId first second now) \<and>
           player1 (pairedGame gameId first second now) = first \<and>
           player2 (pairedGame gameId first second now) = Some second \<and>
           waitingPlayers s2 = [])"
  proof
    assume a: "waitingPlayers s = [] \<and> player_id first \<noteq> player_id second"
    let ?e = "\<lparr> player = first, timeout = nextHandle (timers s) \<rparr>"
    let ?s1 = "snd (enqueueWaiting s first)"
    have 1: "addPlayerToQueue s first gameId1 now1 = (None, ?s1)"
      using a addPlayerToQueue_wait [of s first gameId1 now1] by (simp add: enqueueWaiting_eq)
    have q1: "waitingPlayers ?s1 = (socketId first, ?e) # []"
      using a by (simp add: enqueueWaiting_eq)
    have ne: "player_id (player ?e) \<noteq> player_id second" using a by simp
    let ?s2 = "?s1\<lparr> games := (games ?s1)(gameId \<mapsto> pairedGame gameId (player ?e) second now),
         waitingPlayers := mapDelete (waitingPlayers ?s1) (socketId (player ?e)),
         timers := clearTimeout (timers ?s1) (timeout ?e) \<rparr>"
    have m: "addPlayerToQueue ?s1 second gameId now = (Some gameId, ?s2)"
      using q1 ne by (rule addPlayerToQueue_match)
    show "\<exists>s1 s2.
           addPlayerToQueue s first gameId1 now1 = (None, s1) \<and>
           addPlayerToQueue s1 second gameId now = (Some gameId, s2) \<and>
           games s2 gameId = Some (pairedGame gameId first second now) \<and>
           player1 (pairedGame gameId first second now) = first \<and>
           player2 (pairedGame gameId first second now) = Some second \<and>
           waitingPlayers s2 = []"
      apply (rule exI [of _ ?s1])
      apply (rule exI [of _ ?s2])
      apply (intro conjI)
           apply (rule 1)
          apply (rule m)
         apply (simp_all add: pairedGame_def q1 mapDelete_def)
      done
  qed
  from A B show ?thesis by blast
qed


lemma run_aliceWaiting:
  "run initialSystem [AddPlayerToQueue alice ''g0'' 0] = Some sysAliceWaiting"
  by (simp add: sysAliceWaiting_def initialSystem_def addPlayerToQueue_def firstValue_def
        enqueueWaiting_eq alice_def)

theorem addPlayerToQueue_matches_witness:
  "run initialSystem [] = Some initialSystem \<and>
   waitingPlayers initialSystem = [] \<and> player_id alice \<noteq> player_id bob \<and>
   (\<exists>s1 s2.
      addPlayerToQueue initialSystem alice ''g0'' 0 = (None, s1) \<and>
      addPlayerToQueue s1 bob ''g1'' 5 = (Some ''g1'', s2) \<and>
      games s2 ''g1'' = Some (pairedGame ''g1'' alice bob 5) \<and>
      waitingPlayers s2 = []) \<and>
   run initialSystem [AddPlayerToQueue alice ''g0'' 0] = Some sysAliceWaiting \<and>
   distinctWaitingEntry (waitingPlayers sysAliceWaiting) bob \<and>
   (\<exists>s'. addPlayerToQueue sysAliceWaiting bob ''g1'' 5 = (Some ''g1'', s') \<and>
      armed (timers s') 0 = None \<and> waitingPlayers s' = [] \<and>
      games s' ''g1'' = Some (pairedGame ''g1'' alice bob 5)) \<and>
   \<not> distinctWaitingEntry (waitingPlayers sysAliceWaiting) alice \<and>
   (\<exists>s'. addPlayerToQueue sysAliceWaiting alice ''g1'' 5 = (None, s') \<and>
      games s' = games sysAliceWaiting)"
proof -
  have r0: "run initialSystem [] = Some initialSystem" by simp
  have e: "waitingPlayers initialSystem = []" "player_id alice \<noteq> player_id bob"
    by (simp_all add: initialSystem_def alice_def bob_def)
  have d: "distinctWaitingEntry (waitingPlayers sysAliceWaiting) bob"
    "\<not> distinctWaitingEntry (waitingPlayers sysAliceWaiting) alice"
    by (simp_all add: distinctWaitingEntry_def sysAliceWaiting_def alice_def bob_def)
  have q: "waitingPlayers sysAliceWaiting = [(''socket-a'', \<lparr> player = alice, timeout = 0 \<rparr>)]"
    by (simp add: sysAliceWaiting_def)
  from addPlayerToQueue_matches [OF r0, of alice "''g1''" 5 alice bob "''g0''" 0] e
  have 1: "\<exists>s1 s2.
      addPlayerToQueue initialSystem alice ''g0'' 0 = (None, s1) \<and>
      addPlayerToQueue s1 bob ''g1'' 5 = (Some ''g1'', s2) \<and>
      games s2 ''g1'' = Some (pairedGame ''g1'' alice bob 5) \<and>
      waitingPlayers s2 = []"
    by blast
  from addPlayerToQueue_matches [OF run_aliceWaiting, of bob "''g1''" 5 alice bob "''g0''" 0] d(1)
  have 2: "\<exists>s'. addPlayerToQueue sysAliceWaiting bob ''g1'' 5 = (Some ''g1'', s') \<and>
      armed (timers s') 0 = None \<and> waitingPlayers s' = [] \<and>
      games s' ''g1'' = Some (pairedGame ''g1'' alice bob 5)"
    by (auto simp: q)
  from addPlayerToQueue_matches [OF run_aliceWaiting, of alice "''g1''" 5 alice bob "''g0''" 0] d(2)
  have 3: "\<exists>s'. addPlayerToQueue sysAliceWaiting alice ''g1'' 5 = (None, s') \<and>
      games s' = games sysAliceWaiting"
    by auto
  from r0 e 1 run_aliceWaiting d 2 3 show ?thesis by blast
qed

section \<open>The decision heuristic computes the cascade and restores the grid\<close>

lemma bot_checkDirection_total:
  "dr \<noteq> 0 \<or> dc \<noteq> 0 \<Longrightarrow>
   bot_checkDirection b row col dr dc p = Some (4 \<le> axisCount b row col dr dc (Some p))"
  by (simp add: bot_checkDirection_def countInDirection_total)

lemma atLeastThree_total:
  "dr \<noteq> 0 \<or> dc \<noteq> 0 \<Longrightarrow>
   atLeastThree (countInDirection b row col dr dc p) = Some (3 \<le> axisCount b row col dr dc (Some p))"
  by (simp add: atLeastThree_def countInDirection_total)

lemma orElse_Some [simp]: "orElse (Some x) (Some y) = Some (x \<or> y)"
  by (simp add: orElse_def)

lemma setCell_restore:
  "cellAt b row col = Some orig \<Longrightarrow> setCell (setCell b row col piece) row col orig = b"
  by (auto simp: cellAt_def setCell_def Let_def list_update_same_conv split: if_splits)

lemma wouldWin_total:
  "cellAt b row col = Some orig \<Longrightarrow> wouldWin b row col piece = Some (fourWith b row col piece, b)"
  by (simp add: wouldWin_def bot_checkDirection_total fourWith_def Let_def setCell_restore)

lemma createsThreeInRow_total:
  "cellAt b row col = Some orig \<Longrightarrow>
   createsThreeInRow b row col piece = Some (threeWith b row col piece, b)"
  by (simp add: createsThreeInRow_def atLeastThree_total threeWith_def Let_def setCell_restore)

lemma two_le_sum:
  "(2 \<le> f + (g::nat)) = (2 \<le> f \<or> (1 \<le> g \<and> 1 \<le> f) \<or> 2 \<le> g)"
  by arith

lemma run_window3:
  assumes d: "dr \<noteq> 0 \<or> dc \<noteq> 0" and g: "inGrid row col" and p: "cellAt b row col = Some v"
  shows "(3 \<le> axisCount b row col dr dc (Some v))
       = list_ex (\<lambda>k. windowOfThree b v row col dr dc k) [0, 1, 2]"
proof -
  have nd: "- dr \<noteq> 0 \<or> - dc \<noteq> 0" using d by simp
  have "(3 \<le> axisCount b row col dr dc (Some v)) =
        (2 \<le> runLen b (Some v) dr dc (row + dr) (col + dc) +
             runLen b (Some v) (- dr) (- dc) (row - dr) (col - dc))"
    by (simp add: axisCount_def)
  also have "\<dots> = list_ex (\<lambda>k. windowOfThree b v row col dr dc k) [0, 1, 2]"
    unfolding two_le_sum runLen_ge [OF d] runLen_ge [OF nd] all_less_2 all_less_1
    using g p by (simp add: windowOfThree_def algebra_simps) blast
  finally show ?thesis .
qed

lemma fourWith_inRunOfFour:
  assumes "wf_board b" and "inGrid row col" and "piece \<noteq> Cell_empty"
  shows "fourWith b row col piece = inRunOfFour (setCell b row col piece) row col"
proof -
  let ?b1 = "setCell b row col piece"
  have wf: "wf_board ?b1" using assms(1) by simp
  have c: "cellAt ?b1 row col = Some piece"
    using wf_cellAt [OF assms(1,2)] by (auto simp: cellAt_setCell)
  have "fourWith b row col piece = winsAt ?b1 row col"
    using c assms(3) by (simp add: fourWith_def winsAt_def Let_def)
  then show ?thesis using winsAt_inRunOfFour [OF wf assms(2)] by simp
qed

lemma threeWith_inRunOfThree:
  assumes "wf_board b" and "inGrid row col" and "piece \<noteq> Cell_empty"
  shows "threeWith b row col piece = inRunOfThree (setCell b row col piece) row col"
proof -
  let ?b1 = "setCell b row col piece"
  have c: "cellAt ?b1 row col = Some piece"
    using wf_cellAt [OF assms(1,2)] by (auto simp: cellAt_setCell)
  have w: "\<And>dr dc. dr \<noteq> 0 \<or> dc \<noteq> 0 \<Longrightarrow>
      (3 \<le> axisCount ?b1 row col dr dc (Some piece)) =
        list_ex (\<lambda>k. windowOfThree ?b1 piece row col dr dc k) [0, 1, 2]"
    using run_window3 [OF _ assms(2) c] by simp
  show ?thesis
    using c assms(3) by (auto simp add: threeWith_def inRunOfThree_def axes_def w Let_def)
qed

lemma scanRows_find:
  "- 1 \<le> r0 \<Longrightarrow>
   scanRows b c r0 =
     (case find (\<lambda>r. cellAt b r c = Some Cell_empty) (rev [0..r0]) of None \<Rightarrow> - 1 | Some r \<Rightarrow> r)"
proof (induction b c r0 rule: scanRows.induct)
  case (1 b column r)
  show ?case
  proof (cases "r \<ge> 0")
    case False
    then show ?thesis by (simp add: scanRows.simps [of b column r])
  next
    case True
    then have u: "[0..r] = [0..r - 1] @ [r]" by (simp add: upto_rec2)
    show ?thesis
    proof (cases "cellAt b r column = Some Cell_empty")
      case True
      then show ?thesis using \<open>r \<ge> 0\<close> by (simp add: scanRows.simps [of b column r] u)
    next
      case False
      then show ?thesis
        using "1.IH" \<open>r \<ge> 0\<close> by (simp add: scanRows.simps [of b column r] u)
    qed
  qed
qed

lemma getLowestEmptyRow_dropRow: "getLowestEmptyRow b c = dropRow b c"
  by (simp add: getLowestEmptyRow_def dropRow_def scanRows_find config_game_rows_def)

lemma canPlace_drop:
  assumes "canPlacePiece b c"
  shows "0 \<le> dropRow b c \<and> dropRow b c < config_game_rows \<and>
         cellAt b (dropRow b c) c = Some Cell_empty"
proof -
  have "cellAt b 0 c = Some Cell_empty" using assms by (simp add: canPlacePiece_def)
  then have nf: "scanRows b c (config_game_rows - 1) \<noteq> - 1"
    using scanRows_cases [of b c "config_game_rows - 1"]
    by (auto simp: config_game_rows_def)
  from scanRows_found [OF refl nf] show ?thesis
    by (simp add: getLowestEmptyRow_dropRow [symmetric] getLowestEmptyRow_def)
qed

lemma firstColumn_find:
  assumes t: "\<And>c. canPlacePiece b c \<Longrightarrow>
                test b (getLowestEmptyRow b c) c piece = Some (T c, b)"
  shows "firstColumn test b piece col =
           Some (find (\<lambda>c. canPlacePiece b c \<and> T c) [col..config_game_cols - 1], b)"
proof (induction "nat (config_game_cols - col)" arbitrary: col)
  case 0
  then have "\<not> col < config_game_cols" by simp
  then show ?case by (simp add: firstColumn.simps [of test b piece col])
next
  case (Suc n)
  then have lt: "col < config_game_cols" by simp
  then have u: "[col..config_game_cols - 1] = col # [col + 1..config_game_cols - 1]"
    by (simp add: upto_rec1)
  have ih: "firstColumn test b piece (col + 1) =
      Some (find (\<lambda>c. canPlacePiece b c \<and> T c) [col + 1..config_game_cols - 1], b)"
    using Suc by (intro Suc.hyps(1)) simp
  show ?case
  proof (cases "canPlacePiece b col")
    case False
    then show ?thesis using lt ih by (simp add: firstColumn.simps [of test b piece col] u)
  next
    case True
    then show ?thesis
      using lt ih t [OF True]
      by (simp add: firstColumn.simps [of test b piece col] u)
  qed
qed

lemma legalColumn_canPlace:
  "legalColumn b c = (0 \<le> c \<and> c < config_game_cols \<and> canPlacePiece b c)"
  by (simp add: legalColumn_def canPlacePiece_def)

lemma find_columns_cong:
  assumes "\<And>c. 0 \<le> c \<Longrightarrow> c < config_game_cols \<Longrightarrow> P c = Q c"
  shows "find P [0..config_game_cols - 1] = find Q columns"
  unfolding columns_def using assms by (intro find_cong) auto

lemma tier_win:
  assumes wf: "wf_board b" and p: "piece \<noteq> Cell_empty"
  shows "firstColumn wouldWin b piece 0 = Some (find (immediateWin b piece) columns, b)"
proof -
  have t: "\<And>c. canPlacePiece b c \<Longrightarrow>
       wouldWin b (getLowestEmptyRow b c) c piece = Some (fourWith b (dropRow b c) c piece, b)"
    using canPlace_drop by (simp add: getLowestEmptyRow_dropRow wouldWin_total)
  have "find (\<lambda>c. canPlacePiece b c \<and> fourWith b (dropRow b c) c piece) [0..config_game_cols - 1]
        = find (immediateWin b piece) columns"
  proof (rule find_columns_cong)
    fix c :: int assume c: "0 \<le> c" "c < config_game_cols"
    show "(canPlacePiece b c \<and> fourWith b (dropRow b c) c piece) = immediateWin b piece c"
    proof (cases "canPlacePiece b c")
      case False
      then show ?thesis by (simp add: immediateWin_def legalColumn_canPlace)
    next
      case True
      then have "inGrid (dropRow b c) c" using canPlace_drop [OF True] c by (simp add: inGrid_def)
      from fourWith_inRunOfFour [OF wf this p] show ?thesis
        using True c by (simp add: immediateWin_def legalColumn_canPlace)
    qed
  qed
  with firstColumn_find [of b wouldWin piece "\<lambda>c. fourWith b (dropRow b c) c piece" 0, OF t]
  show ?thesis by simp
qed

lemma tier_build:
  assumes wf: "wf_board b" and p: "piece \<noteq> Cell_empty"
  shows "firstColumn createsThreeInRow b piece 0 = Some (find (makesThree b piece) columns, b)"
proof -
  have t: "\<And>c. canPlacePiece b c \<Longrightarrow>
       createsThreeInRow b (getLowestEmptyRow b c) c piece =
         Some (threeWith b (dropRow b c) c piece, b)"
    using canPlace_drop by (simp add: getLowestEmptyRow_dropRow createsThreeInRow_total)
  have "find (\<lambda>c. canPlacePiece b c \<and> threeWith b (dropRow b c) c piece) [0..config_game_cols - 1]
        = find (makesThree b piece) columns"
  proof (rule find_columns_cong)
    fix c :: int assume c: "0 \<le> c" "c < config_game_cols"
    show "(canPlacePiece b c \<and> threeWith b (dropRow b c) c piece) = makesThree b piece c"
    proof (cases "canPlacePiece b c")
      case False
      then show ?thesis by (simp add: makesThree_def legalColumn_canPlace)
    next
      case True
      then have "inGrid (dropRow b c) c" using canPlace_drop [OF True] c by (simp add: inGrid_def)
      from threeWith_inRunOfThree [OF wf this p] show ?thesis
        using True c by (simp add: makesThree_def legalColumn_canPlace)
    qed
  qed
  with firstColumn_find [of b createsThreeInRow piece "\<lambda>c. threeWith b (dropRow b c) c piece" 0, OF t]
  show ?thesis by simp
qed

lemma hd_insort_key:
  "hd (insort_key f x ys) = (if ys = [] \<or> f x \<le> f (hd ys) then x else hd ys)"
  by (cases ys) simp_all

lemma sort_key_Nil_iff: "(sort_key f xs = []) = (xs = [])"
proof -
  have "(length (sort_key f xs) = 0) = (length xs = 0)" by (simp only: length_sort)
  then show ?thesis by (simp only: length_0_conv)
qed

lemma hd_sort_key_min:
  fixes f :: "int \<Rightarrow> int"
  assumes "sorted xs" and "xs \<noteq> []"
  shows "hd (sort_key f xs) \<in> set xs \<and>
         (\<forall>y \<in> set xs. f (hd (sort_key f xs)) < f y \<or>
                        (f (hd (sort_key f xs)) = f y \<and> hd (sort_key f xs) \<le> y))"
  using assms
proof (induction xs)
  case Nil
  then show ?case by simp
next
  case (Cons x xs)
  show ?case
  proof (cases "xs = []")
    case True
    then show ?thesis by simp
  next
    case False
    have s: "sorted xs" and le: "\<And>y. y \<in> set xs \<Longrightarrow> x \<le> y" using Cons.prems by simp_all
    define h where "h = hd (sort_key f xs)"
    from Cons.IH [OF s False] have ih1: "h \<in> set xs"
      and ih2: "\<And>y. y \<in> set xs \<Longrightarrow> f h < f y \<or> (f h = f y \<and> h \<le> y)"
      unfolding h_def by blast+
    have ne: "sort_key f xs \<noteq> []" using False by (simp only: sort_key_Nil_iff not_False_eq_True)
    have "hd (sort_key f (x # xs)) = hd (insort_key f x (sort_key f xs))" by simp
    also have "\<dots> = (if f x \<le> f h then x else h)"
      unfolding hd_insort_key h_def using ne by simp
    finally have hd: "hd (sort_key f (x # xs)) = (if f x \<le> f h then x else h)" .
    show ?thesis
    proof (cases "f x \<le> f h")
      case True
      then have e: "hd (sort_key f (x # xs)) = x" unfolding hd by simp
      have "\<And>y. y \<in> set (x # xs) \<Longrightarrow> f x < f y \<or> (f x = f y \<and> x \<le> y)"
      proof -
        fix y assume y: "y \<in> set (x # xs)"
        show "f x < f y \<or> (f x = f y \<and> x \<le> y)"
        proof (cases "y = x")
          case True then show ?thesis by simp
        next
          case False
          then have yx: "y \<in> set xs" using y by simp
          from ih2 [OF yx] have "f h \<le> f y" by linarith
          with True have "f x \<le> f y" by linarith
          then show ?thesis using le [OF yx] by linarith
        qed
      qed
      then show ?thesis unfolding e by (intro conjI ballI) (simp, blast)
    next
      case False
      then have e: "hd (sort_key f (x # xs)) = h" unfolding hd by simp
      have "\<And>y. y \<in> set (x # xs) \<Longrightarrow> f h < f y \<or> (f h = f y \<and> h \<le> y)"
      proof -
        fix y assume y: "y \<in> set (x # xs)"
        show "f h < f y \<or> (f h = f y \<and> h \<le> y)"
        proof (cases "y = x")
          case True then show ?thesis using False by auto
        next
          case False
          then have yx: "y \<in> set xs" using y by simp
          from ih2 [OF yx] show ?thesis .
        qed
      qed
      then show ?thesis unfolding e using ih1 by (intro conjI ballI) (simp, blast)
    qed
  qed
qed

lemma find_Some_unique:
  "h \<in> set xs \<Longrightarrow> P h \<Longrightarrow> (\<forall>y \<in> set xs. P y \<longrightarrow> y = h) \<Longrightarrow> find P xs = Some h"
proof (induction xs)
  case Nil
  then show ?case by simp
next
  case (Cons a xs)
  show ?case
  proof (cases "P a")
    case True
    have "a \<in> set (a # xs)" by simp
    with Cons.prems(3) True have "a = h" by blast
    then show ?thesis using True by simp
  next
    case False
    have hx: "h \<in> set xs"
    proof (rule ccontr)
      assume "h \<notin> set xs"
      with Cons.prems(1) have "h = a" by simp
      with Cons.prems(2) False show False by simp
    qed
    have u: "\<forall>y \<in> set xs. P y \<longrightarrow> y = h"
      using Cons.prems(3) by (meson list.set_intros(2))
    have "find P xs = Some h" using hx Cons.prems(2) u by (rule Cons.IH)
    then show ?thesis using False by simp
  qed
qed

lemma set_getValidMoves: "set (getValidMoves b) = {c. legalColumn b c}"
  by (auto simp: getValidMoves_def legalColumn_canPlace)

lemma sorted_getValidMoves: "sorted (getValidMoves b)"
  by (simp add: getValidMoves_def sorted_wrt_filter)

lemma set_columns: "set columns = {c. 0 \<le> c \<and> c < config_game_cols}"
  by (auto simp: columns_def)

lemma tier_fallback:
  "(case sort_key (\<lambda>a. \<bar>a - middleColumn\<bar>) (getValidMoves b) of [] \<Rightarrow> None | m # _ \<Rightarrow> Some m)
   = find (nearestToMiddle b) columns"
proof (cases "getValidMoves b = []")
  case True
  then have "\<forall>c. \<not> legalColumn b c" using set_getValidMoves [of b] by auto
  then have "find (nearestToMiddle b) columns = None"
    by (simp add: find_None_iff nearestToMiddle_def)
  then show ?thesis using True by simp
next
  case False
  let ?f = "\<lambda>a. \<bar>a - middleColumn\<bar>"
  let ?h = "hd (sort_key ?f (getValidMoves b))"
  from hd_sort_key_min [OF sorted_getValidMoves False, of ?f]
  have h: "legalColumn b ?h"
    and m: "\<forall>y. legalColumn b y \<longrightarrow> ?f ?h < ?f y \<or> (?f ?h = ?f y \<and> ?h \<le> y)"
    unfolding set_getValidMoves by auto
  have hc: "?h \<in> set columns"
    using h by (simp add: set_columns legalColumn_def)
  have P: "nearestToMiddle b ?h"
    unfolding nearestToMiddle_def list_all_iff using h m by auto
  have U: "\<forall>y \<in> set columns. nearestToMiddle b y \<longrightarrow> y = ?h"
  proof (intro ballI impI)
    fix y assume y: "y \<in> set columns" and n: "nearestToMiddle b y"
    from n have ly: "legalColumn b y" by (simp add: nearestToMiddle_def)
    from n hc h have "?f y < ?f ?h \<or> (?f y = ?f ?h \<and> y \<le> ?h)"
      unfolding nearestToMiddle_def list_all_iff by auto
    moreover from m ly have "?f ?h < ?f y \<or> (?f ?h = ?f y \<and> ?h \<le> y)" by blast
    ultimately show "y = ?h" by linarith
  qed
  have "find (nearestToMiddle b) columns = Some ?h"
    using hc P U by (rule find_Some_unique)
  moreover have "sort_key ?f (getValidMoves b) \<noteq> []"
    using False by (simp add: sort_key_Nil_iff)
  ultimately show ?thesis
    by (cases "sort_key ?f (getValidMoves b)") auto
qed

lemma getBestMove_selectMove:
  assumes wf: "wf_board b"
  shows "getBestMove b side = Some (selectMove b side, b)"
proof -
  have opp: "(if side = Turn_player1 then Cell_player2 else Cell_player1) = cellOf (otherTurn side)"
    by (cases side) (simp_all add: otherTurn_def)
  have c3: "canPlacePiece b (config_game_cols div 2) = legalColumn b middleColumn"
    by (simp add: legalColumn_canPlace middleColumn_def config_game_cols_def)
  note t1 = tier_win [OF wf cellOf_not_empty, of side]
  note t2 = tier_win [OF wf cellOf_not_empty, of "otherTurn side"]
  note t3 = tier_build [OF wf cellOf_not_empty, of side]
  note t5 = tier_fallback [of b, unfolded middleColumn_def]
  show ?thesis
  proof (cases "find (immediateWin b (cellOf side)) columns")
    case (Some c)
    then show ?thesis by (simp add: getBestMove_def selectMove_def opp t1)
  next
    case None
    note n1 = None
    show ?thesis
    proof (cases "find (immediateWin b (cellOf (otherTurn side))) columns")
      case (Some c)
      then show ?thesis by (simp add: getBestMove_def selectMove_def opp t1 n1 t2)
    next
      case None
      note n2 = None
      show ?thesis
      proof (cases "find (makesThree b (cellOf side)) columns")
        case (Some c)
        then show ?thesis by (simp add: getBestMove_def selectMove_def opp t1 n1 t2 n2 t3)
      next
        case None
        show ?thesis
        proof (cases "legalColumn b middleColumn")
          case True
          then show ?thesis
            using c3 by (simp add: getBestMove_def selectMove_def opp t1 n1 t2 n2 t3 None
                  middleColumn_def)
        next
          case False
          then show ?thesis
            using c3 t5
            by (simp add: getBestMove_def selectMove_def opp t1 n1 t2 n2 t3 None
                  middleColumn_def)
        qed
      qed
    qed
  qed
qed

section \<open>The decision heuristic: the claims\<close>

lemma wf_examples:
  "wf_board boardThreeInRow" "wf_board boardTwoThreats" "wf_board boardFull"
  by code_simp+

lemma columns_eval: "columns = [0, 1, 2, 3, 4, 5, 6]"
  by code_simp

lemma selectMove_legal:
  assumes "selectMove b side = Some c"
  shows "legalColumn b c"
proof -
  have w: "\<And>p c. find (immediateWin b p) columns = Some c \<Longrightarrow> legalColumn b c"
    by (auto simp: find_Some_iff immediateWin_def)
  have t: "\<And>p c. find (makesThree b p) columns = Some c \<Longrightarrow> legalColumn b c"
    by (auto simp: find_Some_iff makesThree_def)
  have n: "\<And>c. find (nearestToMiddle b) columns = Some c \<Longrightarrow> legalColumn b c"
    by (auto simp: find_Some_iff nearestToMiddle_def)
  show ?thesis
    using assms w t n
    by (auto simp: selectMove_def split: option.splits if_splits)
qed

lemma selectMove_None_iff:
  "(selectMove b side = None) = (\<forall>c. \<not> legalColumn b c)"
proof
  assume a: "\<forall>c. \<not> legalColumn b c"
  have 1: "\<And>p. find (immediateWin b p) columns = None"
    using a by (simp add: find_None_iff immediateWin_def)
  have 2: "\<And>p. find (makesThree b p) columns = None"
    using a by (simp add: find_None_iff makesThree_def)
  have 3: "find (nearestToMiddle b) columns = None"
    using a by (simp add: find_None_iff nearestToMiddle_def)
  show "selectMove b side = None" using a by (simp add: selectMove_def 1 2 3)
next
  assume s: "selectMove b side = None"
  show "\<forall>c. \<not> legalColumn b c"
  proof (rule ccontr)
    assume "\<not> (\<forall>c. \<not> legalColumn b c)"
    then have ne: "getValidMoves b \<noteq> []" using set_getValidMoves [of b] by auto
    then have "sort_key (\<lambda>a. \<bar>a - middleColumn\<bar>) (getValidMoves b) \<noteq> []"
      by (simp add: sort_key_Nil_iff)
    then have "find (nearestToMiddle b) columns \<noteq> None"
      using tier_fallback [of b, symmetric]
      by (cases "sort_key (\<lambda>a. \<bar>a - middleColumn\<bar>) (getValidMoves b)") simp_all
    with s show False
      by (auto simp: selectMove_def split: option.splits if_splits)
  qed
qed

lemma selectMove_first_win:
  assumes "immediateWin b (cellOf side) 3"
    and "\<not> immediateWin b (cellOf side) 0" "\<not> immediateWin b (cellOf side) 1"
    and "\<not> immediateWin b (cellOf side) 2"
  shows "selectMove b side = Some 3"
proof -
  have "find (immediateWin b (cellOf side)) [0, 1, 2, 3, 4, 5, 6] = Some 3"
    using assms by simp
  then show ?thesis by (simp add: selectMove_def columns_eval)
qed

lemma selectMove_first_block:
  assumes "find (immediateWin b (cellOf side)) columns = None"
    and "immediateWin b (cellOf (otherTurn side)) 3"
    and "\<not> immediateWin b (cellOf (otherTurn side)) 0"
    and "\<not> immediateWin b (cellOf (otherTurn side)) 1"
    and "\<not> immediateWin b (cellOf (otherTurn side)) 2"
  shows "selectMove b side = Some 3"
proof -
  have "find (immediateWin b (cellOf (otherTurn side))) [0, 1, 2, 3, 4, 5, 6] = Some 3"
    using assms(2-) by simp
  then show ?thesis using assms(1) by (simp add: selectMove_def columns_eval)
qed

text \<open>
  C4, as it stands, fails in its last sentence: on this grid side A can complete four in a
  row at column 3, and also at column 0, which the loop meets first; \<open>getBestMove\<close>
  returns 0 for side A, and 0 again for side B, who has no win and blocks the first
  threat.
\<close>

theorem getBestMove_two_threats_counterexample:
  "wf_board boardTwoThreats \<and>
   immediateWin boardTwoThreats Cell_player1 3 \<and>
   getBestMove boardTwoThreats Turn_player1 = Some (Some 0, boardTwoThreats) \<and>
   find (immediateWin boardTwoThreats Cell_player2) columns = None \<and>
   getBestMove boardTwoThreats Turn_player2 = Some (Some 0, boardTwoThreats)"
proof -
  have 1: "immediateWin boardTwoThreats Cell_player1 3" by code_simp
  have 2: "selectMove boardTwoThreats Turn_player1 = Some 0" by code_simp
  have 3: "find (immediateWin boardTwoThreats Cell_player2) columns = None" by code_simp
  have 4: "selectMove boardTwoThreats Turn_player2 = Some 0" by code_simp
  show ?thesis
    using wf_examples(2) 1 2 3 4
    by (simp add: getBestMove_selectMove)
qed

text \<open>
  C4, amended. On a 6x7 grid with at least one legal column \<open>getBestMove\<close> returns a
  column, a legal one, and it is the column the cascade selects: the first legal column,
  from column 0, whose placement wins for the side; else the first whose placement would
  win for the other side; else the first whose placement makes a run of at least three
  for the side; else the middle column 3 if legal; else the legal column nearest to the
  middle, the lower one of two at equal distance. Being a function of the grid and the
  side, the result is determined by them. In particular, when column 3 is a winning
  column for the side and columns 0, 1, 2 are not, the result is 3; and when the side has
  no winning column, column 3 is a winning column for the other side and columns 0, 1, 2
  are not, the result is 3.
\<close>

theorem getBestMove_cascade:
  assumes "wf_board b" and "legalColumn b c0"
  shows "(\<exists>c. getBestMove b side = Some (Some c, b) \<and> selectMove b side = Some c \<and>
           legalColumn b c) \<and>
     (immediateWin b (cellOf side) 3 \<and> \<not> immediateWin b (cellOf side) 0 \<and>
      \<not> immediateWin b (cellOf side) 1 \<and> \<not> immediateWin b (cellOf side) 2 \<longrightarrow>
        getBestMove b side = Some (Some 3, b)) \<and>
     (find (immediateWin b (cellOf side)) columns = None \<and>
      immediateWin b (cellOf (otherTurn side)) 3 \<and>
      \<not> immediateWin b (cellOf (otherTurn side)) 0 \<and>
      \<not> immediateWin b (cellOf (otherTurn side)) 1 \<and>
      \<not> immediateWin b (cellOf (otherTurn side)) 2 \<longrightarrow>
        getBestMove b side = Some (Some 3, b))"
proof -
  note eq = getBestMove_selectMove [OF assms(1), of side]
  have "selectMove b side \<noteq> None"
    using assms(2) selectMove_None_iff [of b side] by blast
  then obtain c where c: "selectMove b side = Some c" by blast
  have "legalColumn b c" using c by (rule selectMove_legal)
  then have 1: "\<exists>c. getBestMove b side = Some (Some c, b) \<and> selectMove b side = Some c \<and>
           legalColumn b c"
    using eq c by simp
  show ?thesis
    using 1 eq selectMove_first_win [of b side] selectMove_first_block [of b side]
    by auto
qed

theorem getBestMove_cascade_witness:
  "wf_board boardThreeInRow \<and> legalColumn boardThreeInRow 6 \<and>
   immediateWin boardThreeInRow (cellOf Turn_player1) 3 \<and>
   \<not> immediateWin boardThreeInRow (cellOf Turn_player1) 0 \<and>
   \<not> immediateWin boardThreeInRow (cellOf Turn_player1) 1 \<and>
   \<not> immediateWin boardThreeInRow (cellOf Turn_player1) 2 \<and>
   getBestMove boardThreeInRow Turn_player1 = Some (Some 3, boardThreeInRow) \<and>
   selectMove boardThreeInRow Turn_player1 = Some 3 \<and>
   find (immediateWin boardThreeInRow (cellOf Turn_player2)) columns = None \<and>
   getBestMove boardThreeInRow Turn_player2 = Some (Some 3, boardThreeInRow) \<and>
   selectMove boardThreeInRow Turn_player2 = Some 3"
proof -
  have a: "immediateWin boardThreeInRow (cellOf Turn_player1) 3"
    "\<not> immediateWin boardThreeInRow (cellOf Turn_player1) 0"
    "\<not> immediateWin boardThreeInRow (cellOf Turn_player1) 1"
    "\<not> immediateWin boardThreeInRow (cellOf Turn_player1) 2"
    "find (immediateWin boardThreeInRow (cellOf Turn_player2)) columns = None"
    by code_simp+
  have l: "legalColumn boardThreeInRow 6" by code_simp
  have o: "cellOf (otherTurn Turn_player2) = cellOf Turn_player1"
    by (simp add: otherTurn_def)
  note t1 = getBestMove_cascade [OF wf_examples(1) l, of Turn_player1]
  note t2 = getBestMove_cascade [OF wf_examples(1) l, of Turn_player2]
  from t1 a
  have 1: "getBestMove boardThreeInRow Turn_player1 = Some (Some 3, boardThreeInRow)"
    by blast
  from t2 a
  have 2: "getBestMove boardThreeInRow Turn_player2 = Some (Some 3, boardThreeInRow)"
    unfolding o by blast
  from t1 1 have 3: "selectMove boardThreeInRow Turn_player1 = Some 3" by auto
  from t2 2 have 4: "selectMove boardThreeInRow Turn_player2 = Some 3" by auto
  from wf_examples(1) l a 1 2 3 4 show ?thesis by blast
qed

text \<open>
  C8. On a 6x7 grid \<open>getBestMove\<close> returns and leaves the grid as it found it, and so do
  \<open>wouldWin\<close> and \<open>createsThreeInRow\<close> called at any cell of the grid: each writes the
  piece, evaluates, and writes the saved value back.
\<close>

theorem getBestMove_restores_grid:
  assumes "wf_board b"
  shows "(\<exists>result. getBestMove b side = Some (result, b)) \<and>
     (inGrid row col \<longrightarrow>
        (\<exists>isWin. wouldWin b row col piece = Some (isWin, b)) \<and>
        (\<exists>hasThree. createsThreeInRow b row col piece = Some (hasThree, b)))"
proof -
  have "inGrid row col \<longrightarrow>
        (\<exists>isWin. wouldWin b row col piece = Some (isWin, b)) \<and>
        (\<exists>hasThree. createsThreeInRow b row col piece = Some (hasThree, b))"
  proof
    assume "inGrid row col"
    from wf_cellAt [OF assms this] obtain v where "cellAt b row col = Some v" by blast
    then show "(\<exists>isWin. wouldWin b row col piece = Some (isWin, b)) \<and>
        (\<exists>hasThree. createsThreeInRow b row col piece = Some (hasThree, b))"
      by (simp add: wouldWin_total createsThreeInRow_total)
  qed
  then show ?thesis using getBestMove_selectMove [OF assms, of side] by simp
qed

theorem getBestMove_restores_grid_witness:
  "wf_board boardTwoThreats \<and> inGrid 2 0 \<and>
   (\<exists>result. getBestMove boardTwoThreats Turn_player1 = Some (result, boardTwoThreats)) \<and>
   (\<exists>isWin. wouldWin boardTwoThreats 2 0 Cell_player1 = Some (isWin, boardTwoThreats)) \<and>
   (\<exists>hasThree. createsThreeInRow boardTwoThreats 2 0 Cell_player1 =
       Some (hasThree, boardTwoThreats))"
proof -
  have g: "inGrid 2 0" by code_simp
  from getBestMove_restores_grid [OF wf_examples(2), of Turn_player1 2 0 Cell_player1] g
    wf_examples(2)
  show ?thesis by blast
qed

text \<open>
  C10. On a 6x7 grid with a legal column (in range, top cell empty) \<open>getBestMove\<close> returns
  a column, in range 0..6, whose top cell is empty. On a 6x7 grid without legal column it
  returns \<open>undefined\<close>, the first element of the empty list of valid moves: no column.
\<close>

theorem getBestMove_legal:
  assumes "wf_board b"
  shows "if list_ex (legalColumn b) columns
         then (\<exists>c. getBestMove b side = Some (Some c, b) \<and>
                 0 \<le> c \<and> c < config_game_cols \<and> cellAt b 0 c = Some Cell_empty)
         else getValidMoves b = [] \<and> getBestMove b side = Some (None, b)"
proof (cases "list_ex (legalColumn b) columns")
  case True
  then have "\<exists>c. legalColumn b c" by (auto simp: list_ex_iff)
  then have "selectMove b side \<noteq> None" by (simp add: selectMove_None_iff)
  then obtain c where c: "selectMove b side = Some c" by blast
  from selectMove_legal [OF c] have "legalColumn b c" .
  then show ?thesis
    using True c getBestMove_selectMove [OF assms, of side]
    by (simp add: legalColumn_def)
next
  case False
  have "\<forall>c. \<not> legalColumn b c"
  proof (intro allI notI)
    fix c assume l: "legalColumn b c"
    then have "c \<in> set columns" by (simp add: set_columns legalColumn_def)
    with l False show False by (auto simp: list_ex_iff)
  qed
  then show ?thesis
    using False getBestMove_selectMove [OF assms, of side] selectMove_None_iff [of b side]
      set_getValidMoves [of b]
    by auto
qed

theorem getBestMove_legal_witness:
  "wf_board boardTwoThreats \<and> list_ex (legalColumn boardTwoThreats) columns \<and>
   (\<exists>c. getBestMove boardTwoThreats Turn_player2 = Some (Some c, boardTwoThreats) \<and>
       0 \<le> c \<and> c < config_game_cols \<and> cellAt boardTwoThreats 0 c = Some Cell_empty) \<and>
   wf_board boardFull \<and> \<not> list_ex (legalColumn boardFull) columns \<and>
   getValidMoves boardFull = [] \<and>
   getBestMove boardFull Turn_player2 = Some (None, boardFull)"
proof -
  have a: "list_ex (legalColumn boardTwoThreats) columns"
    "\<not> list_ex (legalColumn boardFull) columns"
    by code_simp+
  from getBestMove_legal [OF wf_examples(2), of Turn_player2] a(1)
  have 1: "\<exists>c. getBestMove boardTwoThreats Turn_player2 = Some (Some c, boardTwoThreats) \<and>
       0 \<le> c \<and> c < config_game_cols \<and> cellAt boardTwoThreats 0 c = Some Cell_empty"
    by simp
  from getBestMove_legal [OF wf_examples(3), of Turn_player2] a(2)
  have 2: "getValidMoves boardFull = [] \<and>
           getBestMove boardFull Turn_player2 = Some (None, boardFull)"
    by simp
  from wf_examples a 1 2 show ?thesis by blast
qed

end
